theory Spec2Isabelle
  imports Complex_Main "HOL-Library.Multiset"
begin

section \<open>Data model of shared/src/game.ts\<close>

text \<open>
  JavaScript numbers that only ever hold small integers (indices, lives, counters) are
  \<open>nat\<close> or \<open>int\<close>; hand values, which can be the configured
  \<open>threeOfKindValue\<close> (30.5 by default), are \<open>rat\<close>. NaN and the
  infinities are not modelled. \<open>null\<close> and \<open>undefined\<close> are both
  \<open>None\<close>.
\<close>

datatype Suit = SuitS | SuitH | SuitD | SuitC

datatype Rank =
    RankA | RankK | RankQ | RankJ
  | Rank10 | Rank9 | Rank8 | Rank7 | Rank6 | Rank5 | Rank4 | Rank3 | Rank2

record Card =
  suit :: Suit
  rank :: Rank
  cid :: string

datatype PlayerType = HUMAN | CPU

text \<open>The per-turn stage that \<open>applyAction\<close> attaches to a player object
  (\<open>anyP.turnStage\<close>); \<open>None\<close> is null or absent.\<close>

datatype TurnStage = START | DREW

record Player =
  pid :: string
  name :: string
  ptype :: PlayerType
  hand :: "Card list"
  lives :: int
  eliminated :: bool
  turnStage :: "TurnStage option"
  drawnCardId :: "string option"
  tookDiscardId :: "string option"

datatype Phase = PLAYING | KNOCKED | SHOWDOWN | HAND_OVER | GAME_OVER

record Rules =
  startingLives :: int
  allowKnockAnyScore :: bool
  knockMinScore :: "rat option"
  threeOfKindValue :: "rat option"

text \<open>A log line is its text; the showdown line interpolates numbers, so it keeps
  its (name, value) pairs instead of their printed form.\<close>

datatype LogLine = Line string | ShowdownLine "(string \<times> rat) list"

record GameState =
  roomId :: string
  rules :: Rules
  players :: "Player list"
  dealerIndex :: nat
  turnIndex :: nat
  phase :: Phase
  knockedBy :: "string option"
  finalTurnsLeft :: int
  stock :: "Card list"
  discard :: "Card list"
  lastActionLog :: "LogLine list"
  winnerId :: "string option"
  seed :: int

datatype Action = DRAW_STOCK | DRAW_DISCARD | DISCARD string | KNOCK | OTHER

text \<open>\<open>OTHER\<close> stands for a payload whose \<open>type\<close> is none of the four:
  the socket layer hands \<open>applyAction\<close> an untyped object.\<close>

datatype ActionResult = Ok | Rejected string

datatype exn = StockEmptyDuringDeal | StockEmptyStartingDiscard | TypeError

text \<open>JavaScript truthiness of a \<open>string | null\<close>: null and the empty string
  are falsy.\<close>

definition truthy :: "string option \<Rightarrow> bool" where
  "truthy x = (case x of None \<Rightarrow> False | Some s \<Rightarrow> s \<noteq> [])"

section \<open>Hand value\<close>

fun rankValue :: "Rank \<Rightarrow> rat" where
  "rankValue RankA = 11"
| "rankValue RankK = 10"
| "rankValue RankQ = 10"
| "rankValue RankJ = 10"
| "rankValue Rank10 = 10"
| "rankValue Rank9 = 9"
| "rankValue Rank8 = 8"
| "rankValue Rank7 = 7"
| "rankValue Rank6 = 6"
| "rankValue Rank5 = 5"
| "rankValue Rank4 = 4"
| "rankValue Rank3 = 3"
| "rankValue Rank2 = 2"

text \<open>\<open>Math.max(...xs)\<close> on a list that is never empty where it is used (four
  suits, three cards); on the empty list JavaScript gives -Infinity, which \<open>rat\<close>
  does not have.\<close>

fun mathMax :: "rat list \<Rightarrow> rat" where
  "mathMax [] = 0"
| "mathMax (x # xs) = fold max xs x"

text \<open>The loop \<open>for (const c of hand) sumsBySuit[c.suit] += rankValue(c.rank)\<close>.\<close>

definition sumsBySuit :: "Card list \<Rightarrow> Suit \<Rightarrow> rat" where
  "sumsBySuit hnd =
     foldl (\<lambda>m c. m(suit c := m (suit c) + rankValue (rank c))) (\<lambda>_. 0) hnd"

definition handValue :: "Card list \<Rightarrow> Rules \<Rightarrow> rat" where
  "handValue hnd rls =
     (if length hnd \<noteq> 3 then 0
      else
        let natural =
          (let bestSuitSum = mathMax (map (sumsBySuit hnd) [SuitS, SuitH, SuitD, SuitC]);
               bestSingle = mathMax (map (\<lambda>c. rankValue (rank c)) hnd)
           in max bestSuitSum bestSingle)
        in case threeOfKindValue rls of
             None \<Rightarrow> natural
           | Some v \<Rightarrow>
               if rank (hnd ! 0) = rank (hnd ! 1) \<and> rank (hnd ! 1) = rank (hnd ! 2)
               then v else natural)"

definition hasExact31 :: "Card list \<Rightarrow> Rules \<Rightarrow> bool" where
  "hasExact31 hnd rls = (handValue hnd rls = 31)"

section \<open>Deck and deterministic RNG\<close>

text \<open>
  \<open>makeRng\<close>: the state \<open>s\<close> is an unsigned 32-bit integer
  (\<open>seed >>> 0\<close>, the seed modulo \<open>2^32\<close>), stepped by
  \<open>s = (1664525 * s + 1013904223) >>> 0\<close>. The product and the sum stay below
  \<open>2^53\<close>, so the double arithmetic is exact and the step is integer arithmetic
  modulo \<open>2^32\<close>. The generator returns \<open>s / 2^32\<close>, and
  \<open>Math.floor(rng() * (i + 1))\<close> is then \<open>(s * (i + 1)) div 2^32\<close>
  (again exact: \<open>i < 2^21\<close> for every list here).
\<close>

definition rngStep :: "int \<Rightarrow> int" where
  "rngStep s = (1664525 * s + 1013904223) mod 2 ^ 32"

text \<open>The loop of \<open>shuffleInPlace\<close> from index \<open>i\<close> down to 1.\<close>

fun shuffleLoop :: "nat \<Rightarrow> int \<Rightarrow> 'a list \<Rightarrow> 'a list" where
  "shuffleLoop 0 s arr = arr"
| "shuffleLoop (Suc i) s arr =
     (let s' = rngStep s;
          j = nat ((s' * (int (Suc i) + 1)) div 2 ^ 32)
      in shuffleLoop i s' (arr[Suc i := arr ! j, j := arr ! Suc i]))"

definition shuffleInPlace :: "'a list \<Rightarrow> int \<Rightarrow> 'a list" where
  "shuffleInPlace arr sd = shuffleLoop (length arr - 1) (sd mod 2 ^ 32) arr"

definition suitText :: "Suit \<Rightarrow> string" where
  "suitText s = (case s of SuitS \<Rightarrow> ''S'' | SuitH \<Rightarrow> ''H'' | SuitD \<Rightarrow> ''D'' | SuitC \<Rightarrow> ''C'')"

definition rankText :: "Rank \<Rightarrow> string" where
  "rankText r = (case r of
       RankA \<Rightarrow> ''A'' | RankK \<Rightarrow> ''K'' | RankQ \<Rightarrow> ''Q'' | RankJ \<Rightarrow> ''J''
     | Rank10 \<Rightarrow> ''10'' | Rank9 \<Rightarrow> ''9'' | Rank8 \<Rightarrow> ''8'' | Rank7 \<Rightarrow> ''7''
     | Rank6 \<Rightarrow> ''6'' | Rank5 \<Rightarrow> ''5'' | Rank4 \<Rightarrow> ''4'' | Rank3 \<Rightarrow> ''3''
     | Rank2 \<Rightarrow> ''2'')"

text \<open>The decimal text of a counter, as a template literal prints it.\<close>

fun showNat :: "nat \<Rightarrow> string" where
  "showNat n =
     (if n < 10 then [''0123456789'' ! n]
      else showNat (n div 10) @ [''0123456789'' ! (n mod 10)])"

definition allSuits :: "Suit list" where
  "allSuits = [SuitS, SuitH, SuitD, SuitC]"

definition allRanks :: "Rank list" where
  "allRanks = [RankA, RankK, RankQ, RankJ, Rank10, Rank9, Rank8, Rank7, Rank6, Rank5,
               Rank4, Rank3, Rank2]"

definition makeDeck :: "int \<Rightarrow> Card list" where
  "makeDeck sd =
     (let pairs = concat (map (\<lambda>s. map (\<lambda>r. (s, r)) allRanks) allSuits);
          deck = map (\<lambda>(n, (s, r)).
                   \<lparr>suit = s, rank = r, cid = suitText s @ rankText r @ ''-'' @ showNat n\<rparr>)
                   (enumerate 0 pairs)
      in shuffleInPlace deck sd)"

definition pushLog :: "LogLine \<Rightarrow> GameState \<Rightarrow> GameState" where
  "pushLog l st = st\<lparr>lastActionLog := lastActionLog st @ [l]\<rparr>"

text \<open>\<open>refillStockFromDiscard\<close> returns its boolean with the state it leaves. The
  three characters between the words of its log line are written byte by byte as the
  source file holds them.\<close>

definition refillStockFromDiscard :: "GameState \<Rightarrow> bool \<times> GameState" where
  "refillStockFromDiscard st =
     (if length (discard st) \<le> 1 then (False, st)
      else
        let top = last (discard st);
            recycle = butlast (discard st);
            st1 = st\<lparr>seed := seed st + 1\<rparr>;
            st2 = st1\<lparr>stock := shuffleInPlace recycle (seed st)\<rparr>;
            st3 = st2\<lparr>discard := [top]\<rparr>
        in (True, pushLog (Line (''Stock exhausted ''
                   @ [CHR 0xC3, CHR 0xA2, CHR 0xE2, CHR 0x80, CHR 0xA0, CHR 0xE2, CHR 0x80, CHR 0x99]
                   @ '' reshuffled discard pile into stock.'')) st3))"

section \<open>Turn order, lives, game over\<close>

text \<open>The loop of \<open>nextActiveIndex\<close>, for \<open>step\<close> up to \<open>n\<close>.\<close>

function nextActiveLoop :: "Player list \<Rightarrow> nat \<Rightarrow> nat \<Rightarrow> nat" where
  "nextActiveLoop ps fromIndex step =
     (if step \<le> length ps then
        (if \<not> eliminated (ps ! ((fromIndex + step) mod length ps))
         then (fromIndex + step) mod length ps
         else nextActiveLoop ps fromIndex (step + 1))
      else fromIndex)"
  by pat_completeness auto
termination
  by (relation "measure (\<lambda>(ps, fromIndex, step). Suc (length ps) - step)") auto

declare nextActiveLoop.simps [simp del]

definition nextActiveIndex :: "GameState \<Rightarrow> nat \<Rightarrow> nat" where
  "nextActiveIndex st fromIndex = nextActiveLoop (players st) fromIndex 1"

definition activePlayers :: "GameState \<Rightarrow> Player list" where
  "activePlayers st = filter (\<lambda>p. \<not> eliminated p) (players st)"

definition loseLives :: "Player \<Rightarrow> int \<Rightarrow> Player" where
  "loseLives p n =
     (if eliminated p then p
      else
        let p1 = p\<lparr>lives := lives p - n\<rparr>
        in if lives p1 \<le> 0 then p1\<lparr>lives := 0, eliminated := True\<rparr> else p1)"

definition finishElimsAndMaybeGameOver :: "GameState \<Rightarrow> GameState" where
  "finishElimsAndMaybeGameOver st =
     (let alive = filter (\<lambda>p. \<not> eliminated p) (players st)
      in if length alive = 1
         then st\<lparr>winnerId := Some (pid (alive ! 0)), phase := GAME_OVER\<rparr>
         else st\<lparr>winnerId := None\<rparr>)"

text \<open>\<open>state.phase = state.winnerId ? "GAME_OVER" : "HAND_OVER"\<close>.\<close>

definition resolvePhase :: "GameState \<Rightarrow> GameState" where
  "resolvePhase st = st\<lparr>phase := (if truthy (winnerId st) then GAME_OVER else HAND_OVER)\<rparr>"

section \<open>Dealing\<close>

text \<open>The loop that builds \<open>order\<close>: \<open>k\<close> more iterations from \<open>idx\<close>.\<close>

fun dealOrder :: "GameState \<Rightarrow> nat \<Rightarrow> nat \<Rightarrow> nat list" where
  "dealOrder st idx 0 = []"
| "dealOrder st idx (Suc k) =
     (let idx' = nextActiveIndex st idx in idx' # dealOrder st idx' k)"

text \<open>One round of the deal: a card popped from the stock for every entry of
  \<open>order\<close>. An empty stock throws; so would an index with no player behind it.\<close>

fun dealRound :: "nat list \<Rightarrow> GameState \<Rightarrow> exn + GameState" where
  "dealRound [] st = Inr st"
| "dealRound (i # rest) st =
     (if stock st = [] then Inl StockEmptyDuringDeal
      else if \<not> i < length (players st) then Inl TypeError
      else
        let card = last (stock st);
            st1 = st\<lparr>stock := butlast (stock st)\<rparr>;
            p = players st1 ! i
        in dealRound rest (st1\<lparr>players := (players st1)[i := p\<lparr>hand := hand p @ [card]\<rparr>]\<rparr>))"

fun dealRounds :: "nat \<Rightarrow> nat list \<Rightarrow> GameState \<Rightarrow> exn + GameState" where
  "dealRounds 0 order st = Inr st"
| "dealRounds (Suc k) order st =
     (case dealRound order st of Inl e \<Rightarrow> Inl e | Inr st1 \<Rightarrow> dealRounds k order st1)"

fun joinWith :: "string \<Rightarrow> string list \<Rightarrow> string" where
  "joinWith sep [] = []"
| "joinWith sep [x] = x"
| "joinWith sep (x # y # ys) = x @ sep @ joinWith sep (y # ys)"

definition startHand :: "GameState \<Rightarrow> exn + GameState" where
  "startHand st0 =
     (let st1 = st0\<lparr>phase := PLAYING, knockedBy := None, finalTurnsLeft := 0,
                    stock := makeDeck (seed st0), seed := seed st0 + 1,
                    discard := [], lastActionLog := [],
                    players := map (\<lambda>p. p\<lparr>hand := []\<rparr>) (players st0)\<rparr>;
          order = dealOrder st1 (dealerIndex st1) (length (players st1))
      in case dealRounds 3 order st1 of
           Inl e \<Rightarrow> Inl e
         | Inr st2 \<Rightarrow>
             if stock st2 = [] then Inl StockEmptyStartingDiscard
             else
               let st3 = st2\<lparr>stock := butlast (stock st2),
                              discard := discard st2 @ [last (stock st2)]\<rparr>;
                   st4 = st3\<lparr>turnIndex := nextActiveIndex st3 (dealerIndex st3)\<rparr>;
                   winners = filter (\<lambda>p. \<not> eliminated p \<and> hasExact31 (hand p) (rules st4))
                               (players st4)
               in if length winners > 0 then
                    let st5 = pushLog (Line (''Dealt 31! '' @ joinWith '', '' (map name winners)
                                              @ '' declare immediately.'')) st4;
                        st6 = st5\<lparr>players :=
                                map (\<lambda>p. if eliminated p then p
                                          else if list_ex (\<lambda>w. pid w = pid p) winners then p
                                          else loseLives p 1) (players st5)\<rparr>
                    in Inr (resolvePhase (finishElimsAndMaybeGameOver st6))
                  else Inr st4)"

section \<open>The action state machine\<close>

definition canKnock :: "GameState \<Rightarrow> string \<Rightarrow> bool" where
  "canKnock st playerId =
     (if phase st \<noteq> PLAYING then False
      else if \<not> turnIndex st < length (players st) then False
      else
        let current = players st ! turnIndex st
        in if pid current \<noteq> playerId then False
           else if truthy (knockedBy st) then False
           else if allowKnockAnyScore (rules st) then True
           else
             let v = handValue (hand current) (rules st)
             in (case knockMinScore (rules st) of None \<Rightarrow> False | Some m \<Rightarrow> v \<ge> m))"

text \<open>A write through the reference \<open>p\<close> (or \<open>anyP\<close>, \<open>current\<close>) to the
  player object at \<open>state.players[state.turnIndex]\<close>.\<close>

definition turnPlayer :: "GameState \<Rightarrow> Player" where
  "turnPlayer st = players st ! turnIndex st"

definition updTurnPlayer :: "(Player \<Rightarrow> Player) \<Rightarrow> GameState \<Rightarrow> GameState" where
  "updTurnPlayer f st = st\<lparr>players := (players st)[turnIndex st := f (turnPlayer st)]\<rparr>"

definition clearTurn :: "Player \<Rightarrow> Player" where
  "clearTurn p = p\<lparr>turnStage := None, drawnCardId := None, tookDiscardId := None\<rparr>"

definition resetTurnStages :: "GameState \<Rightarrow> GameState" where
  "resetTurnStages st = st\<lparr>players := map clearTurn (players st)\<rparr>"

text \<open>\<open>advanceTurn\<close> is called only where \<open>players[turnIndex]\<close> exists.\<close>

definition advanceTurn :: "GameState \<Rightarrow> GameState" where
  "advanceTurn st =
     (let st1 = updTurnPlayer clearTurn st
      in st1\<lparr>turnIndex := nextActiveIndex st1 (turnIndex st1)\<rparr>)"

fun findIndex :: "('a \<Rightarrow> bool) \<Rightarrow> 'a list \<Rightarrow> nat option" where
  "findIndex P [] = None"
| "findIndex P (x # xs) = (if P x then Some 0 else map_option Suc (findIndex P xs))"

section \<open>Showdown\<close>

text \<open>\<open>Math.min(...xs)\<close>; on the empty list JavaScript gives Infinity, and
  \<open>scoreShowdown\<close> then finds nobody lowest, which its model writes out.\<close>

fun mathMin :: "rat list \<Rightarrow> rat" where
  "mathMin [] = 0"
| "mathMin (x # xs) = fold min xs x"

text \<open>
  The two loops over \<open>lowest\<close>, which differ in the id they skip (the knocker's,
  in the branch "tie involving knocker"; none in the last branch) and in the text they
  log. \<open>state.players.find(p => p.id === i)!\<close> followed by a field access is a
  TypeError where no player has the id.
\<close>

fun loseLoop :: "string option \<Rightarrow> string \<Rightarrow> string list \<Rightarrow> GameState \<Rightarrow> exn + GameState" where
  "loseLoop skip msg [] st = Inr st"
| "loseLoop skip msg (i # rest) st =
     (if skip = Some i then loseLoop skip msg rest st
      else case findIndex (\<lambda>p. pid p = i) (players st) of
             None \<Rightarrow> Inl TypeError
           | Some k \<Rightarrow>
               let lp = players st ! k;
                   st1 = pushLog (Line (name lp @ msg)) st
               in loseLoop skip msg rest (st1\<lparr>players := (players st1)[k := loseLives lp 1]\<rparr>))"

definition tieLoop :: "string \<Rightarrow> string list \<Rightarrow> GameState \<Rightarrow> exn + GameState" where
  "tieLoop knockerId = loseLoop (Some knockerId) '' ties lowest with knocker: loses 1 life.''"

definition lowestLoop :: "string list \<Rightarrow> GameState \<Rightarrow> exn + GameState" where
  "lowestLoop = loseLoop None '' is lowest: loses 1 life.''"

definition lowestIds :: "GameState \<Rightarrow> string list" where
  "lowestIds st =
     (let active = filter (\<lambda>p. \<not> eliminated p) (players st);
          scores = map (\<lambda>p. (pid p, handValue (hand p) (rules st))) active
      in if scores = [] then []
         else map fst (filter (\<lambda>s. snd s = mathMin (map snd scores)) scores))"

definition scoreShowdown :: "GameState \<Rightarrow> exn + GameState" where
  "scoreShowdown st =
     (let knockerId = knockedBy st;
          active = filter (\<lambda>p. \<not> eliminated p) (players st);
          scores = map (\<lambda>p. (pid p, handValue (hand p) (rules st))) active;
          lowest = lowestIds st;
          knockerIsLowest = (knockerId \<noteq> None \<and> length lowest = 1 \<and> Some (lowest ! 0) = knockerId);
          includesKnocker = (case knockerId of None \<Rightarrow> False | Some k \<Rightarrow> k \<in> set lowest)
      in case those (map (\<lambda>s. map_option (\<lambda>p. (name p, snd s))
                                 (find (\<lambda>p. pid p = fst s) (players st))) scores) of
           None \<Rightarrow> Inl TypeError
         | Some entries \<Rightarrow>
             let st1 = pushLog (ShowdownLine entries) st;
                 penalised =
                   (if knockerIsLowest then
                      (case findIndex (\<lambda>p. Some (pid p) = knockerId) (players st1) of
                         None \<Rightarrow> Inl TypeError
                       | Some k \<Rightarrow>
                           let kp = players st1 ! k;
                               st2 = pushLog (Line (name kp
                                       @ '' knocked and is the sole lowest: loses 2 lives.'')) st1
                           in Inr (st2\<lparr>players := (players st2)[k := loseLives kp 2]\<rparr>))
                    else if includesKnocker then tieLoop (the knockerId) lowest st1
                    else lowestLoop lowest st1)
             in case penalised of
                  Inl e \<Rightarrow> Inl e
                | Inr st3 \<Rightarrow> Inr (resolvePhase (finishElimsAndMaybeGameOver st3)))"

section \<open>applyAction\<close>

definition reject :: "string \<Rightarrow> GameState \<Rightarrow> exn + ActionResult \<times> GameState" where
  "reject msg st = Inr (Rejected msg, st)"

text \<open>The branch \<open>action.type === "KNOCK"\<close>.\<close>

definition applyKnock :: "GameState \<Rightarrow> string \<Rightarrow> exn + ActionResult \<times> GameState" where
  "applyKnock st playerId =
     (let p = turnPlayer st
      in if turnStage p \<noteq> Some START
           then reject ''You can only knock at the start of your turn.'' st
         else if \<not> canKnock st playerId then reject ''Knock not allowed.'' st
         else
           let st1 = st\<lparr>knockedBy := Some playerId\<rparr>;
               st2 = st1\<lparr>phase := KNOCKED\<rparr>;
               st3 = st2\<lparr>finalTurnsLeft := int (length (activePlayers st2)) - 1\<rparr>;
               st4 = pushLog (Line (name p @ '' knocks.'')) st3
           in Inr (Ok, advanceTurn st4))"

text \<open>The branch \<open>action.type === "DRAW_STOCK"\<close>.\<close>

definition applyDrawStock :: "GameState \<Rightarrow> exn + ActionResult \<times> GameState" where
  "applyDrawStock st =
     (let p = turnPlayer st
      in if turnStage p \<noteq> Some START then reject ''You already drew.'' st
         else
           let (ok, st1) = (if stock st = [] then refillStockFromDiscard st else (True, st))
           in if \<not> ok then reject ''No cards left to draw.'' st1
              else if stock st1 = [] then reject ''No cards left to draw.'' st1
              else
                let c = last (stock st1);
                    st2 = st1\<lparr>stock := butlast (stock st1)\<rparr>;
                    st3 = updTurnPlayer (\<lambda>q. q\<lparr>hand := hand q @ [c]\<rparr>) st2;
                    st4 = updTurnPlayer (\<lambda>q. q\<lparr>drawnCardId := Some (cid c)\<rparr>) st3;
                    st5 = updTurnPlayer (\<lambda>q. q\<lparr>turnStage := Some DREW\<rparr>) st4
                in Inr (Ok, pushLog (Line (name p @ '' draws from stock.'')) st5))"

text \<open>The branch \<open>action.type === "DRAW_DISCARD"\<close>.\<close>

definition applyDrawDiscard :: "GameState \<Rightarrow> exn + ActionResult \<times> GameState" where
  "applyDrawDiscard st =
     (let p = turnPlayer st
      in if turnStage p \<noteq> Some START then reject ''You already drew.'' st
         else if discard st = [] then reject ''Discard is empty.'' st
         else
           let c = last (discard st);
               st1 = st\<lparr>discard := butlast (discard st)\<rparr>;
               st2 = updTurnPlayer (\<lambda>q. q\<lparr>hand := hand q @ [c]\<rparr>) st1;
               st3 = updTurnPlayer (\<lambda>q. q\<lparr>tookDiscardId := Some (cid c)\<rparr>) st2;
               st4 = updTurnPlayer (\<lambda>q. q\<lparr>turnStage := Some DREW\<rparr>) st3
           in Inr (Ok, pushLog (Line (name p @ '' takes the top discard.'')) st4))"

text \<open>The immediate 31 declaration after a discard.\<close>

definition declare31 :: "GameState \<Rightarrow> GameState" where
  "declare31 st =
     (let p = turnPlayer st;
          st1 = pushLog (Line (name p @ '' declares 31! Everyone else loses 1 life.'')) st;
          st2 = st1\<lparr>players :=
                  map (\<lambda>op. if eliminated op then op
                             else if pid op = pid p then op
                             else loseLives op 1) (players st1)\<rparr>
      in resetTurnStages (resolvePhase (finishElimsAndMaybeGameOver st2)))"

text \<open>The branch \<open>action.type === "DISCARD"\<close>, from the 31 check on: the
  card has left the hand, which holds 3 cards.\<close>

definition afterDiscard :: "GameState \<Rightarrow> exn + ActionResult \<times> GameState" where
  "afterDiscard st =
     (let p = turnPlayer st
      in if hasExact31 (hand p) (rules st) then Inr (Ok, declare31 st)
         else
           let st1 = pushLog (Line (name p @ '' discards.'')) st
           in if phase st1 = KNOCKED then
                let st2 = st1\<lparr>finalTurnsLeft := finalTurnsLeft st1 - 1\<rparr>
                in if finalTurnsLeft st2 \<le> 0 then
                     (case scoreShowdown (st2\<lparr>phase := SHOWDOWN\<rparr>) of
                        Inl e \<Rightarrow> Inl e
                      | Inr st3 \<Rightarrow> Inr (Ok, resetTurnStages st3))
                   else Inr (Ok, advanceTurn st2)
              else Inr (Ok, advanceTurn st1))"

text \<open>The branch \<open>action.type === "DISCARD"\<close>.\<close>

definition applyDiscard :: "GameState \<Rightarrow> string \<Rightarrow> exn + ActionResult \<times> GameState" where
  "applyDiscard st cardId =
     (let p = turnPlayer st
      in if turnStage p \<noteq> Some DREW then reject ''You must draw first.'' st
         else case findIndex (\<lambda>x. cid x = cardId) (hand p) of
           None \<Rightarrow> reject ''You don't have that card.'' st
         | Some idx \<Rightarrow>
             if truthy (tookDiscardId p) \<and> tookDiscardId p = Some cardId
               then reject ''Illegal: cannot discard the same card you took from discard.'' st
             else
               let c = hand p ! idx;
                   st1 = updTurnPlayer
                           (\<lambda>q. q\<lparr>hand := take idx (hand q) @ drop (Suc idx) (hand q)\<rparr>) st;
                   st2 = st1\<lparr>discard := discard st1 @ [c]\<rparr>
               in if length (hand (turnPlayer st2)) \<noteq> 3
                    then reject ''Internal error: hand size not 3.'' st2
                  else afterDiscard st2)"

text \<open>\<open>if (anyP.turnStage == null) anyP.turnStage = "START"\<close>.\<close>

definition startStage :: "GameState \<Rightarrow> GameState" where
  "startStage st =
     (if turnStage (turnPlayer st) = None
      then updTurnPlayer (\<lambda>q. q\<lparr>turnStage := Some START\<rparr>) st else st)"

definition applyAction ::
  "GameState \<Rightarrow> string \<Rightarrow> Action \<Rightarrow> exn + ActionResult \<times> GameState" where
  "applyAction st playerId action =
     (if phase st \<noteq> PLAYING \<and> phase st \<noteq> KNOCKED then reject ''Hand is not active.'' st
      else if \<not> turnIndex st < length (players st) then reject ''Not your turn.'' st
      else if pid (turnPlayer st) \<noteq> playerId then reject ''Not your turn.'' st
      else if eliminated (turnPlayer st) then reject ''You are eliminated.'' st
      else
        let st1 = startStage st
        in case action of
             KNOCK \<Rightarrow> applyKnock st1 playerId
           | DRAW_STOCK \<Rightarrow> applyDrawStock st1
           | DRAW_DISCARD \<Rightarrow> applyDrawDiscard st1
           | DISCARD cardId \<Rightarrow> applyDiscard st1 cardId
           | OTHER \<Rightarrow> reject ''Unknown action.'' st1)"

section \<open>The view of one viewer\<close>

record PlayerView =
  v_id :: string
  v_name :: string
  v_type :: PlayerType
  v_lives :: int
  v_eliminated :: bool
  handCount :: nat
  revealedHand :: "Card list option"
  revealedValue :: "rat option"

record YouView =
  you_id :: string
  you_name :: string
  you_hand :: "Card list"
  canAct :: bool
  you_canKnock :: bool
  mustDiscard :: bool

record ClientView =
  v_roomId :: string
  v_rules :: Rules
  v_players :: "PlayerView list"
  v_dealerIndex :: nat
  turnPlayerId :: string
  v_phase :: Phase
  v_knockedBy :: "string option"
  stockCount :: nat
  topDiscard :: "Card option"
  you :: "YouView option"
  log :: "LogLine list"

definition revealAll :: "GameState \<Rightarrow> bool" where
  "revealAll st = (phase st = SHOWDOWN \<or> phase st = HAND_OVER \<or> phase st = GAME_OVER)"

definition viewPlayer :: "GameState \<Rightarrow> string option \<Rightarrow> Player \<Rightarrow> PlayerView" where
  "viewPlayer st viewerId p =
     (let revealThis = (revealAll st \<or> (truthy viewerId \<and> Some (pid p) = viewerId))
      in \<lparr>v_id = pid p, v_name = name p, v_type = ptype p, v_lives = lives p,
          v_eliminated = eliminated p, handCount = length (hand p),
          revealedHand = (if revealThis then Some (hand p) else None),
          revealedValue = (if revealAll st then Some (handValue (hand p) (rules st)) else None)\<rparr>)"

definition makeClientView :: "GameState \<Rightarrow> string option \<Rightarrow> ClientView" where
  "makeClientView st viewerId =
     (let turnP = (if turnIndex st < length (players st) then Some (turnPlayer st) else None);
          youP = (if truthy viewerId then find (\<lambda>p. Some (pid p) = viewerId) (players st) else None);
          mustDisc = (case youP of None \<Rightarrow> False | Some y \<Rightarrow> turnStage y = Some DREW)
      in \<lparr>v_roomId = roomId st,
          v_rules = rules st,
          v_players = map (viewPlayer st viewerId) (players st),
          v_dealerIndex = dealerIndex st,
          turnPlayerId = (case turnP of None \<Rightarrow> [] | Some t \<Rightarrow> pid t),
          v_phase = phase st,
          v_knockedBy = knockedBy st,
          stockCount = length (stock st),
          topDiscard = (if discard st \<noteq> [] then Some (last (discard st)) else None),
          you = (case youP of
                   None \<Rightarrow> None
                 | Some y \<Rightarrow>
                     Some \<lparr>you_id = pid y, you_name = name y, you_hand = hand y,
                           canAct = ((phase st = PLAYING \<or> phase st = KNOCKED)
                                     \<and> map_option pid turnP = Some (pid y)),
                           you_canKnock = canKnock st (pid y),
                           mustDiscard = mustDisc\<rparr>),
          log = drop (length (lastActionLog st) - 12) (lastActionLog st)\<rparr>)"

section \<open>The room: next hand and the CPU policy (gameRoom.ts)\<close>

datatype CpuDifficulty = easy | medium | hard

text \<open>A room without its socket table, which belongs to the transport layer.\<close>

record Room =
  room_id :: string
  state :: GameState
  cpuDifficulty :: CpuDifficulty

definition nextHand :: "Room \<Rightarrow> exn + Room" where
  "nextHand room =
     (let s = state room
      in if phase s \<noteq> HAND_OVER then Inr room
         else case startHand (s\<lparr>dealerIndex := nextActiveIndex s (dealerIndex s)\<rparr>) of
                Inl e \<Rightarrow> Inl e
              | Inr s1 \<Rightarrow> Inr (room\<lparr>state := s1\<rparr>))"

definition bestValueAfterAdding :: "Card list \<Rightarrow> Card \<Rightarrow> Rules \<Rightarrow> rat" where
  "bestValueAfterAdding hnd add rls =
     (let cards = hnd @ [add]
      in foldl (\<lambda>best c.
                  let three = filter (\<lambda>x. cid x \<noteq> cid c) cards;
                      v = handValue three rls
                  in if v > best then v else best) (- 1) cards)"

text \<open>\<open>hand4[0].id\<close> is a TypeError on an empty hand.\<close>

definition chooseBestDiscard :: "Card list \<Rightarrow> Rules \<Rightarrow> exn + string" where
  "chooseBestDiscard hand4 rls =
     (case hand4 of
        [] \<Rightarrow> Inl TypeError
      | c0 # _ \<Rightarrow>
          Inr (snd (foldl (\<lambda>(bestValue, bestDiscard) c.
                      let three = filter (\<lambda>x. cid x \<noteq> cid c) hand4;
                          v = handValue three rls
                      in if v > bestValue then (v, cid c) else (bestValue, bestDiscard))
                    (- 1, cid c0) hand4)))"

text \<open>The calls of \<open>Math.random()\<close> are the values \<open>r1\<close>, \<open>r2\<close> in
  \<open>[0, 1)\<close>, in the order they are made; the second is drawn only when the first
  is below 0.6.\<close>

definition chooseDiscardEasy :: "Card list \<Rightarrow> Rules \<Rightarrow> rat \<Rightarrow> rat \<Rightarrow> exn + string" where
  "chooseDiscardEasy hand4 rls r1 r2 =
     (if r1 < 6 / 10 then
        (let i = nat \<lfloor>r2 * of_nat (length hand4)\<rfloor>
         in if i < length hand4 then Inr (cid (hand4 ! i)) else Inl TypeError)
      else chooseBestDiscard hand4 rls)"

definition suitedBonus :: "Card list \<Rightarrow> rat" where
  "suitedBonus three =
     (if list_ex (\<lambda>s. length (filter (\<lambda>t. suit t = s) three) \<ge> 2) allSuits
      then 15 / 100 else 0)"

definition chooseBestDiscardHard :: "Card list \<Rightarrow> Rules \<Rightarrow> exn + string" where
  "chooseBestDiscardHard hand4 rls =
     (case hand4 of
        [] \<Rightarrow> Inl TypeError
      | c0 # _ \<Rightarrow>
          Inr (snd (foldl (\<lambda>(bestScore, bestDiscard) c.
                      let three = filter (\<lambda>x. cid x \<noteq> cid c) hand4;
                          v = handValue three rls;
                          score = v + suitedBonus three
                      in if score > bestScore then (score, cid c) else (bestScore, bestDiscard))
                    (- 1000000000, cid c0) hand4)))"

definition knockThreshold :: "CpuDifficulty \<Rightarrow> rat" where
  "knockThreshold diff = (if diff = easy then 28 else if diff = medium then 27 else 25)"

definition takeDiscardBias :: "CpuDifficulty \<Rightarrow> rat" where
  "takeDiscardBias diff =
     (if diff = easy then 2 / 10 else if diff = medium then 6 / 10 else 9 / 10)"

text \<open>
  \<open>maybeRunCpuTurn\<close> returns the room it leaves and the actions it reported through
  \<open>onAction\<close>, in order. \<open>rnd\<close> gives the successive values of
  \<open>Math.random()\<close>.
\<close>

definition maybeRunCpuTurn :: "Room \<Rightarrow> (nat \<Rightarrow> rat) \<Rightarrow> exn + Room \<times> Action list" where
  "maybeRunCpuTurn room rnd =
     (let s = state room
      in if phase s \<noteq> PLAYING \<and> phase s \<noteq> KNOCKED then Inr (room, [])
         else if \<not> turnIndex s < length (players s) then Inr (room, [])
         else
           let p = turnPlayer s
           in if eliminated p \<or> ptype p \<noteq> CPU then Inr (room, [])
              else
                let diff = cpuDifficulty room;
                    currentValue = handValue (hand p) (rules s)
                in if currentValue \<ge> knockThreshold diff then
                     (case applyAction s (pid p) KNOCK of
                        Inl e \<Rightarrow> Inl e
                      | Inr (res, s1) \<Rightarrow>
                          Inr (room\<lparr>state := s1\<rparr>, if res = Ok then [KNOCK] else []))
                   else
                     let improves =
                           (discard s \<noteq> [] \<and>
                            bestValueAfterAdding (hand p) (last (discard s)) (rules s) > currentValue);
                         randomUsed = (improves \<and> diff \<noteq> hard);
                         takeDiscard =
                           (if diff = hard then improves
                            else improves \<and> rnd 0 < takeDiscardBias diff);
                         k = (if randomUsed then 1 else 0);
                         drawAction = (if takeDiscard then DRAW_DISCARD else DRAW_STOCK)
                     in case applyAction s (pid p) drawAction of
                          Inl e \<Rightarrow> Inl e
                        | Inr (r1, s1) \<Rightarrow>
                            if r1 \<noteq> Ok then Inr (room\<lparr>state := s1\<rparr>, [])
                            else
                              let hand4 = hand (players s1 ! turnIndex s);
                                  chosen =
                                    (if diff = easy
                                       then chooseDiscardEasy hand4 (rules s1) (rnd k) (rnd (k + 1))
                                     else if diff = medium then chooseBestDiscard hand4 (rules s1)
                                     else chooseBestDiscardHard hand4 (rules s1))
                              in case chosen of
                                   Inl e \<Rightarrow> Inl e
                                 | Inr discardId \<Rightarrow>
                                     (case applyAction s1 (pid p) (DISCARD discardId) of
                                        Inl e \<Rightarrow> Inl e
                                      | Inr (r2, s2) \<Rightarrow>
                                          Inr (room\<lparr>state := s2\<rparr>,
                                               if r2 = Ok then [drawAction, DISCARD discardId]
                                               else [drawAction])))"

section \<open>Example states\<close>

definition exRules :: Rules where
  "exRules = \<lparr>startingLives = 3, allowKnockAnyScore = True, knockMinScore = None,
              threeOfKindValue = Some (61 / 2)\<rparr>"

definition card :: "Suit \<Rightarrow> Rank \<Rightarrow> string \<Rightarrow> Card" where
  "card s r i = \<lparr>suit = s, rank = r, cid = i\<rparr>"

definition exPlayer :: "string \<Rightarrow> PlayerType \<Rightarrow> Card list \<Rightarrow> int \<Rightarrow> Player" where
  "exPlayer i t h l =
     \<lparr>pid = i, name = i, ptype = t, hand = h, lives = l, eliminated = (l = 0),
      turnStage = None, drawnCardId = None, tookDiscardId = None\<rparr>"

definition exState :: "Player list \<Rightarrow> Phase \<Rightarrow> GameState" where
  "exState ps ph =
     \<lparr>roomId = ''ROOM1'', rules = exRules, players = ps, dealerIndex = 0, turnIndex = 0,
      phase = ph, knockedBy = None, finalTurnsLeft = 0, stock = [], discard = [],
      lastActionLog = [], winnerId = None, seed = 1\<rparr>"

text \<open>Two seats in phase PLAYING, seat 0 to act at the start of its turn.\<close>

definition exPlayState :: GameState where
  "exPlayState =
     (exState
        [exPlayer ''a'' HUMAN
           [card SuitS RankK ''SK-1'', card SuitS RankQ ''SQ-2'', card SuitH Rank9 ''H9-18''] 3,
         exPlayer ''b'' CPU
           [card SuitH Rank2 ''H2-25'', card SuitD Rank5 ''D5-35'', card SuitC Rank7 ''C7-46''] 3]
        PLAYING)
     \<lparr>stock := [card SuitD RankA ''DA-26'', card SuitS RankA ''SA-0''],
      discard := [card SuitC Rank3 ''C3-50'']\<rparr>"


section \<open>Hand value: order of the cards, three of a kind, suit sums\<close>

text \<open>The value as section 4.2 of the specification words it.\<close>

definition spec_bestSuitSum :: "Card list \<Rightarrow> rat" where
  "spec_bestSuitSum hnd =
     Max ((\<lambda>s. sum_list (map (\<lambda>c. rankValue (rank c)) (filter (\<lambda>c. suit c = s) hnd)))
            ` (UNIV :: Suit set))"

definition spec_bestSingle :: "Card list \<Rightarrow> rat" where
  "spec_bestSingle hnd = Max ((\<lambda>c. rankValue (rank c)) ` set hnd)"

definition threeOfAKind :: "Card list \<Rightarrow> bool" where
  "threeOfAKind hnd = (\<exists>r. \<forall>c \<in> set hnd. rank c = r)"

lemma UNIV_Suit: "(UNIV :: Suit set) = {SuitS, SuitH, SuitD, SuitC}"
proof -
  have "s \<in> {SuitS, SuitH, SuitD, SuitC}" for s
    by (cases s) simp_all
  then show ?thesis by blast
qed

lemma sumsBySuit_fold:
  "foldl (\<lambda>m c. m(suit c := m (suit c) + rankValue (rank c))) m0 hnd s =
     m0 s + sum_list (map (\<lambda>c. rankValue (rank c)) (filter (\<lambda>c. suit c = s) hnd))"
  by (induction hnd arbitrary: m0) auto

lemma sumsBySuit_eq:
  "sumsBySuit hnd s =
     sum_list (map (\<lambda>c. rankValue (rank c)) (filter (\<lambda>c. suit c = s) hnd))"
  by (simp add: sumsBySuit_def sumsBySuit_fold)

lemma mathMax_Max: "xs \<noteq> [] \<Longrightarrow> mathMax xs = Max (set xs)"
proof (cases xs)
  case Nil
  then show "xs \<noteq> [] \<Longrightarrow> ?thesis" by simp
next
  case (Cons x ys)
  then show ?thesis by (simp only: mathMax.simps Max.set_eq_fold)
qed

lemma bestSuitSum_spec:
  "mathMax (map (sumsBySuit hnd) [SuitS, SuitH, SuitD, SuitC]) = spec_bestSuitSum hnd"
proof -
  have "sumsBySuit hnd = (\<lambda>s. sum_list (map (\<lambda>c. rankValue (rank c)) (filter (\<lambda>c. suit c = s) hnd)))"
    by (rule ext) (rule sumsBySuit_eq)
  then show ?thesis
    unfolding spec_bestSuitSum_def UNIV_Suit
    by (subst mathMax_Max) simp_all
qed

lemma bestSingle_spec:
  "hnd \<noteq> [] \<Longrightarrow> mathMax (map (\<lambda>c. rankValue (rank c)) hnd) = spec_bestSingle hnd"
  by (simp add: mathMax_Max spec_bestSingle_def)

lemma threeOfAKind_3:
  "threeOfAKind [a, b, c] = (rank a = rank b \<and> rank b = rank c)"
  by (auto simp: threeOfAKind_def)

lemma length3E:
  assumes "length xs = 3"
  obtains a b c where "xs = [a, b, c]"
  using assms by (auto simp: numeral_3_eq_3 length_Suc_conv)

lemma handValue_char:
  "handValue hnd rls =
     (if length hnd \<noteq> 3 then 0
      else case threeOfKindValue rls of
             None \<Rightarrow> max (spec_bestSuitSum hnd) (spec_bestSingle hnd)
           | Some v \<Rightarrow> if threeOfAKind hnd then v
                       else max (spec_bestSuitSum hnd) (spec_bestSingle hnd))"
proof (cases "length hnd = 3")
  case False
  then show ?thesis by (simp add: handValue_def)
next
  case True
  then obtain a b c where h: "hnd = [a, b, c]" by (rule length3E)
  have ne: "hnd \<noteq> []" using h by simp
  have tk: "threeOfAKind hnd = (rank (hnd ! 0) = rank (hnd ! 1) \<and> rank (hnd ! 1) = rank (hnd ! 2))"
    using h by (simp add: threeOfAKind_3)
  show ?thesis
    unfolding handValue_def Let_def bestSuitSum_spec bestSingle_spec [OF ne] tk [symmetric]
    using True by (simp split: option.splits)
qed

lemma spec_bestSuitSum_mset:
  "mset h1 = mset h2 \<Longrightarrow> spec_bestSuitSum h1 = spec_bestSuitSum h2"
proof -
  assume eq: "mset h1 = mset h2"
  have "sum_list (map f (filter P h1)) = sum_list (map f (filter P h2))"
    for f :: "Card \<Rightarrow> rat" and P
  proof -
    have "mset (map f (filter P h1)) = mset (map f (filter P h2))"
      using eq by (metis mset_filter mset_map)
    then show ?thesis by (metis sum_mset_sum_list)
  qed
  then show ?thesis by (simp add: spec_bestSuitSum_def)
qed

lemma spec_bestSingle_mset:
  "mset h1 = mset h2 \<Longrightarrow> spec_bestSingle h1 = spec_bestSingle h2"
  by (metis spec_bestSingle_def mset_eq_setD)

lemma threeOfAKind_mset:
  "mset h1 = mset h2 \<Longrightarrow> threeOfAKind h1 = threeOfAKind h2"
  by (metis threeOfAKind_def mset_eq_setD)

lemma handValue_mset:
  "mset h1 = mset h2 \<Longrightarrow> handValue h1 rls = handValue h2 rls"
proof -
  assume eq: "mset h1 = mset h2"
  then have "length h1 = length h2" by (rule mset_eq_length)
  then show ?thesis
    by (simp add: handValue_char spec_bestSuitSum_mset [OF eq] spec_bestSingle_mset [OF eq]
        threeOfAKind_mset [OF eq] split: option.splits)
qed

text \<open>
  C8. On a 3-card hand, \<open>handValue\<close> gives the same value for every reordering of
  the cards; when the three ranks are identical and \<open>threeOfKindValue\<close> is
  configured it is exactly that value; in every other case it is the maximum of the best
  same-suit sum of \<open>rankValue\<close> and the best single card's \<open>rankValue\<close>.
\<close>

theorem handValue_three_cards:
  assumes "length hnd = 3"
  shows "(\<forall>hnd'. mset hnd' = mset hnd \<longrightarrow> handValue hnd' rls = handValue hnd rls)
       \<and> (\<forall>v. threeOfAKind hnd \<and> threeOfKindValue rls = Some v \<longrightarrow> handValue hnd rls = v)
       \<and> (\<not> (threeOfAKind hnd \<and> threeOfKindValue rls \<noteq> None) \<longrightarrow>
            handValue hnd rls = max (spec_bestSuitSum hnd) (spec_bestSingle hnd))"
proof (intro conjI allI impI)
  fix hnd' assume "mset hnd' = mset hnd"
  then show "handValue hnd' rls = handValue hnd rls" by (rule handValue_mset)
next
  fix v assume "threeOfAKind hnd \<and> threeOfKindValue rls = Some v"
  then show "handValue hnd rls = v" using assms by (simp add: handValue_char)
next
  assume "\<not> (threeOfAKind hnd \<and> threeOfKindValue rls \<noteq> None)"
  then show "handValue hnd rls = max (spec_bestSuitSum hnd) (spec_bestSingle hnd)"
    using assms by (auto simp: handValue_char split: option.splits)
qed

theorem handValue_three_cards_witness:
  "handValue [card SuitH Rank9 ''H9-0'', card SuitS RankK ''SK-1'', card SuitS RankQ ''SQ-2''] exRules
     = handValue [card SuitS RankK ''SK-1'', card SuitS RankQ ''SQ-2'', card SuitH Rank9 ''H9-0''] exRules
   \<and> handValue [card SuitS RankQ ''SQ-2'', card SuitH RankQ ''HQ-15'', card SuitD RankQ ''DQ-28''] exRules
     = 61 / 2
   \<and> handValue [card SuitS RankK ''SK-1'', card SuitS RankQ ''SQ-2'', card SuitH Rank9 ''H9-0''] exRules
     = max (spec_bestSuitSum [card SuitS RankK ''SK-1'', card SuitS RankQ ''SQ-2'', card SuitH Rank9 ''H9-0''])
           (spec_bestSingle [card SuitS RankK ''SK-1'', card SuitS RankQ ''SQ-2'', card SuitH Rank9 ''H9-0''])
   \<and> handValue [card SuitS RankK ''SK-1'', card SuitS RankQ ''SQ-2'', card SuitH Rank9 ''H9-0''] exRules
     = 20"
proof -
  let ?h = "[card SuitS RankK ''SK-1'', card SuitS RankQ ''SQ-2'', card SuitH Rank9 ''H9-0'']"
  let ?q = "[card SuitS RankQ ''SQ-2'', card SuitH RankQ ''HQ-15'', card SuitD RankQ ''DQ-28'']"
  have lh: "length ?h = 3" and lq: "length ?q = 3" by simp_all
  note th = handValue_three_cards [OF lh, of exRules]
  note tq = handValue_three_cards [OF lq, of exRules]
  have a: "handValue [card SuitH Rank9 ''H9-0'', card SuitS RankK ''SK-1'', card SuitS RankQ ''SQ-2''] exRules
      = handValue ?h exRules"
    using th [THEN conjunct1, rule_format,
        of "[card SuitH Rank9 ''H9-0'', card SuitS RankK ''SK-1'', card SuitS RankQ ''SQ-2'']"]
    by simp
  have "threeOfAKind ?q" by (simp add: threeOfAKind_def card_def)
  moreover have "threeOfKindValue exRules = Some (61 / 2)" by (simp add: exRules_def)
  ultimately have b: "handValue ?q exRules = 61 / 2" using tq by blast
  have "\<not> threeOfAKind ?h" by (simp add: threeOfAKind_def card_def)
  then have c: "handValue ?h exRules = max (spec_bestSuitSum ?h) (spec_bestSingle ?h)"
    using th by blast
  have d: "handValue ?h exRules = 20"
    by (simp add: handValue_def sumsBySuit_def card_def exRules_def)
  from a b c d show ?thesis by simp
qed

section \<open>Lemmas on the turn player and the turn order\<close>

lemma nextActiveLoop_elim_cong:
  "1 \<le> s \<Longrightarrow> length ps = length ps' \<Longrightarrow>
   \<forall>i<length ps. eliminated (ps ! i) = eliminated (ps' ! i) \<Longrightarrow>
   nextActiveLoop ps f s = nextActiveLoop ps' f s"
proof (induction ps f s rule: nextActiveLoop.induct)
  case (1 ps fromIndex step)
  show ?case
  proof (cases "step \<le> length ps")
    case False
    then show ?thesis using "1.prems"(2) by (simp add: nextActiveLoop.simps [of _ fromIndex step])
  next
    case True
    have pos: "0 < length ps" using True "1.prems"(1) by (cases ps) auto
    have lt: "(fromIndex + step) mod length ps < length ps" using pos by simp
    show ?thesis
    proof (cases "eliminated (ps ! ((fromIndex + step) mod length ps))")
      case e: True
      then have e': "eliminated (ps' ! ((fromIndex + step) mod length ps))"
        using "1.prems" lt by simp
      have "nextActiveLoop ps fromIndex (step + 1) = nextActiveLoop ps' fromIndex (step + 1)"
        using "1.IH" [OF True] e "1.prems" by simp
      then show ?thesis
        using True e e' "1.prems"(2)
        by (simp add: nextActiveLoop.simps [of _ fromIndex step])
    next
      case e: False
      then have e': "\<not> eliminated (ps' ! ((fromIndex + step) mod length ps))"
        using "1.prems" lt by simp
      show ?thesis
        using True e e' "1.prems"(2)
        by (simp add: nextActiveLoop.simps [of _ fromIndex step])
    qed
  qed
qed

lemma nextActiveLoop_map_eliminated:
  assumes "map eliminated ps = map eliminated ps'" and "1 \<le> s"
  shows "nextActiveLoop ps f s = nextActiveLoop ps' f s"
proof -
  have l: "length ps = length ps'" using assms(1) by (rule map_eq_imp_length_eq)
  have "\<forall>i<length ps. eliminated (ps ! i) = eliminated (ps' ! i)"
  proof (intro allI impI)
    fix i assume "i < length ps"
    then have "map eliminated ps ! i = eliminated (ps ! i)" "map eliminated ps' ! i = eliminated (ps' ! i)"
      using l by simp_all
    then show "eliminated (ps ! i) = eliminated (ps' ! i)" using assms(1) by simp
  qed
  then show ?thesis using assms(2) l by (rule nextActiveLoop_elim_cong [rotated 2])
qed

lemma nextActiveIndex_cong:
  "map eliminated (players st) = map eliminated (players st') \<Longrightarrow>
   nextActiveIndex st f = nextActiveIndex st' f"
  unfolding nextActiveIndex_def by (rule nextActiveLoop_map_eliminated) simp_all

lemma activePlayers_length_cong:
  assumes "map eliminated (players st) = map eliminated (players st')"
  shows "length (activePlayers st) = length (activePlayers st')"
proof -
  have "length (filter (\<lambda>b. \<not> b) (map eliminated (players st)))
      = length (filter (\<lambda>b. \<not> b) (map eliminated (players st')))"
    using assms by simp
  then show ?thesis by (simp add: activePlayers_def filter_map comp_def)
qed

text \<open>A field-wise update of one player that keeps a field keeps its column.\<close>

lemma map_list_update_same:
  "(\<And>q. g (f q) = g q) \<Longrightarrow> map g (xs[i := f (xs ! i)]) = map g xs"
  by (induction xs arbitrary: i) (auto split: nat.splits)

lemma map_clearTurn_update [simp]:
  "map hand (xs[i := clearTurn (xs ! i)]) = map hand xs"
  "map lives (xs[i := clearTurn (xs ! i)]) = map lives xs"
  "map eliminated (xs[i := clearTurn (xs ! i)]) = map eliminated xs"
  "map pid (xs[i := clearTurn (xs ! i)]) = map pid xs"
  "map name (xs[i := clearTurn (xs ! i)]) = map name xs"
  by (rule map_list_update_same, simp add: clearTurn_def)+

lemma map_updTurnPlayer:
  assumes "\<And>q. g (f q) = g q"
  shows "map g (players (updTurnPlayer f st)) = map g (players st)"
  using assms by (simp add: updTurnPlayer_def turnPlayer_def map_list_update_same)

lemma updTurnPlayer_fields [simp]:
  "turnIndex (updTurnPlayer f st) = turnIndex st"
  "phase (updTurnPlayer f st) = phase st"
  "rules (updTurnPlayer f st) = rules st"
  "knockedBy (updTurnPlayer f st) = knockedBy st"
  "finalTurnsLeft (updTurnPlayer f st) = finalTurnsLeft st"
  "stock (updTurnPlayer f st) = stock st"
  "discard (updTurnPlayer f st) = discard st"
  "lastActionLog (updTurnPlayer f st) = lastActionLog st"
  "winnerId (updTurnPlayer f st) = winnerId st"
  "seed (updTurnPlayer f st) = seed st"
  "dealerIndex (updTurnPlayer f st) = dealerIndex st"
  "roomId (updTurnPlayer f st) = roomId st"
  "length (players (updTurnPlayer f st)) = length (players st)"
  by (simp_all add: updTurnPlayer_def)

lemma turnPlayer_upd:
  "turnIndex st < length (players st) \<Longrightarrow> turnPlayer (updTurnPlayer f st) = f (turnPlayer st)"
  by (simp add: turnPlayer_def updTurnPlayer_def)

lemma updTurnPlayer_twice:
  "updTurnPlayer g (updTurnPlayer f st) = updTurnPlayer (g \<circ> f) st"
proof (cases "turnIndex st < length (players st)")
  case True
  then show ?thesis by (simp add: updTurnPlayer_def turnPlayer_def)
next
  case False
  then show ?thesis by (simp add: updTurnPlayer_def list_update_beyond not_less)
qed

text \<open>The stage an absent \<open>turnStage\<close> is read as.\<close>

definition stageOf :: "Player \<Rightarrow> TurnStage" where
  "stageOf q = (case turnStage q of None \<Rightarrow> START | Some x \<Rightarrow> x)"

lemma startStage_eq:
  "startStage st = updTurnPlayer (\<lambda>q. q\<lparr>turnStage := Some (stageOf q)\<rparr>) st"
proof (cases "turnStage (turnPlayer st)")
  case None
  then show ?thesis
    by (simp add: startStage_def updTurnPlayer_def stageOf_def)
next
  case (Some x)
  then have "(turnPlayer st)\<lparr>turnStage := Some (stageOf (turnPlayer st))\<rparr> = turnPlayer st"
    by (simp add: stageOf_def)
  then show ?thesis
    using Some by (simp add: startStage_def updTurnPlayer_def turnPlayer_def)
qed

lemma applyKnock_Ok:
  assumes "applyKnock s playerId = Inr (Ok, s')"
  shows "s' = s\<lparr>phase := KNOCKED, knockedBy := Some playerId,
                 finalTurnsLeft := int (length (activePlayers s)) - 1,
                 turnIndex := nextActiveIndex s (turnIndex s),
                 lastActionLog := lastActionLog s @ [Line (name (turnPlayer s) @ '' knocks.'')],
                 players := (players s)[turnIndex s := clearTurn (turnPlayer s)]\<rparr>"
    and "turnStage (turnPlayer s) = Some START" and "canKnock s playerId"
proof -
  from assms show st: "turnStage (turnPlayer s) = Some START" and ck: "canKnock s playerId"
    by (auto simp: applyKnock_def reject_def Let_def split: if_splits)
  have nx: "nextActiveIndex (s\<lparr>knockedBy := a, phase := b, finalTurnsLeft := c, lastActionLog := d,
                 players := (players s)[turnIndex s := clearTurn (turnPlayer s)]\<rparr>) f = nextActiveIndex s f"
    for a b c d f
    by (rule nextActiveIndex_cong) (simp add: turnPlayer_def)
  have ap: "activePlayers (s\<lparr>knockedBy := a, phase := b\<rparr>) = activePlayers s" for a b
    by (simp add: activePlayers_def)
  from assms st ck show "s' = s\<lparr>phase := KNOCKED, knockedBy := Some playerId,
                 finalTurnsLeft := int (length (activePlayers s)) - 1,
                 turnIndex := nextActiveIndex s (turnIndex s),
                 lastActionLog := lastActionLog s @ [Line (name (turnPlayer s) @ '' knocks.'')],
                 players := (players s)[turnIndex s := clearTurn (turnPlayer s)]\<rparr>"
    by (auto simp: applyKnock_def Let_def advanceTurn_def pushLog_def updTurnPlayer_def
        turnPlayer_def nx [unfolded turnPlayer_def] ap)
qed

lemma findIndex_Some:
  "findIndex P xs = Some i \<Longrightarrow> i < length xs \<and> P (xs ! i)"
  by (induction xs arbitrary: i) (auto split: if_splits)

lemma length_remove_nth:
  "i < length xs \<Longrightarrow> length (take i xs @ drop (Suc i) xs) = length xs - 1"
  by simp

lemma afterDiscard_not_rejected: "afterDiscard s \<noteq> Inr (Rejected e, s')"
proof (cases "hasExact31 (hand (turnPlayer s)) (rules s)")
  case True
  then show ?thesis by (simp add: afterDiscard_def)
next
  case n31: False
  show ?thesis
  proof (cases "phase s = KNOCKED \<and> finalTurnsLeft s - 1 \<le> 0")
    case True
    then show ?thesis
      using n31 by (simp add: afterDiscard_def Let_def pushLog_def split: sum.splits)
  next
    case False
    then show ?thesis
      using n31 by (auto simp: afterDiscard_def Let_def pushLog_def)
  qed
qed



lemma findIndex_None: "findIndex P xs = None \<longleftrightarrow> (\<forall>x\<in>set xs. \<not> P x)"
  by (induction xs) auto

lemma findIndex_first:
  "findIndex P xs = Some i \<Longrightarrow> j < i \<Longrightarrow> \<not> P (xs ! j)"
proof (induction xs arbitrary: i j)
  case Nil
  then show ?case by simp
next
  case (Cons x xs)
  then show ?case by (cases j) (auto split: if_splits)
qed

lemma loseLives_fields [simp]:
  "pid (loseLives p n) = pid p"
  "name (loseLives p n) = name p"
  "ptype (loseLives p n) = ptype p"
  "hand (loseLives p n) = hand p"
  "turnStage (loseLives p n) = turnStage p"
  "drawnCardId (loseLives p n) = drawnCardId p"
  "tookDiscardId (loseLives p n) = tookDiscardId p"
  by (simp_all add: loseLives_def Let_def)

lemma distinct_pid_update:
  assumes "distinct (map pid ps)" and "k < length ps" and "pid q = pid (ps ! k)"
  shows "ps[k := q] = map (\<lambda>p. if pid p = pid (ps ! k) then q else p) ps"
proof (rule nth_equalityI)
  show "length (ps[k := q]) = length (map (\<lambda>p. if pid p = pid (ps ! k) then q else p) ps)" by simp
next
  fix i assume "i < length (ps[k := q])"
  then have i: "i < length ps" by simp
  have "pid (ps ! i) = pid (ps ! k) \<longleftrightarrow> i = k"
    using assms(1,2) i by (metis distinct_conv_nth length_map nth_map)
  then show "ps[k := q] ! i = map (\<lambda>p. if pid p = pid (ps ! k) then q else p) ps ! i"
    using i assms(2) by (auto simp: nth_list_update)
qed

text \<open>What a loop over \<open>lowest\<close> does to the players whose ids are distinct.\<close>

definition loseOne :: "string option \<Rightarrow> string list \<Rightarrow> Player \<Rightarrow> Player" where
  "loseOne skip ids p = (if pid p \<in> set ids \<and> Some (pid p) \<noteq> skip then loseLives p 1 else p)"

lemma loseLoop_players:
  assumes "distinct (map pid (players st))" and "distinct ids"
    and "set ids \<subseteq> pid ` set (players st)"
  shows "\<exists>st'. loseLoop skip msg ids st = Inr st'
           \<and> players st' = map (loseOne skip ids) (players st)
           \<and> st'\<lparr>players := players st, lastActionLog := lastActionLog st\<rparr> = st"
  using assms
proof (induction ids arbitrary: st)
  case Nil
  then show ?case by (simp add: loseOne_def)
next
  case (Cons i rest)
  have dr: "distinct rest" and inr: "i \<notin> set rest" using Cons.prems(2) by simp_all
  have sub: "set rest \<subseteq> pid ` set (players st)" using Cons.prems(3) by simp
  show ?case
  proof (cases "skip = Some i")
    case True
    obtain st' where r: "loseLoop skip msg rest st = Inr st'"
      "players st' = map (loseOne skip rest) (players st)"
      "st'\<lparr>players := players st, lastActionLog := lastActionLog st\<rparr> = st"
      using Cons.IH [OF Cons.prems(1) dr sub] by blast
    have "map (loseOne skip rest) (players st) = map (loseOne skip (i # rest)) (players st)"
      using True by (auto simp: loseOne_def)
    then show ?thesis using r True by simp
  next
    case False
    have "i \<in> pid ` set (players st)" using Cons.prems(3) by simp
    then have "findIndex (\<lambda>p. pid p = i) (players st) \<noteq> None"
      by (auto simp: findIndex_None)
    then obtain k where k: "findIndex (\<lambda>p. pid p = i) (players st) = Some k" by blast
    then have kl: "k < length (players st)" and kp: "pid (players st ! k) = i"
      using findIndex_Some [OF k] by simp_all
    let ?lp = "players st ! k"
    let ?st1 = "(pushLog (Line (name ?lp @ msg)) st)
                  \<lparr>players := (players st)[k := loseLives ?lp 1]\<rparr>"
    have step: "loseLoop skip msg (i # rest) st = loseLoop skip msg rest ?st1"
      using False k by (simp add: Let_def pushLog_def)
    have pl1: "players ?st1 = map (\<lambda>p. if pid p = i then loseLives ?lp 1 else p) (players st)"
      using distinct_pid_update [OF Cons.prems(1) kl, of "loseLives ?lp 1"] kp
      by (simp add: pushLog_def)
    have pl1': "players ?st1 = map (\<lambda>p. if pid p = i then loseLives p 1 else p) (players st)"
    proof -
      have "(if pid p = i then loseLives ?lp 1 else p) = (if pid p = i then loseLives p 1 else p)"
        if "p \<in> set (players st)" for p
      proof (cases "pid p = i")
        case True
        then have "p = ?lp"
          using Cons.prems(1) that kl kp
          by (metis distinct_map inj_on_def nth_mem)
        then show ?thesis by simp
      next
        case False
        then show ?thesis by simp
      qed
      then show ?thesis unfolding pl1 by (simp cong: map_cong)
    qed
    have pid1: "map pid (players ?st1) = map pid (players st)"
      unfolding pl1' by (simp add: comp_def cong: if_cong)
    have d1: "distinct (map pid (players ?st1))" using Cons.prems(1) pid1 by simp
    have sub1: "set rest \<subseteq> pid ` set (players ?st1)"
    proof -
      have "pid ` set (players ?st1) = set (map pid (players ?st1))" by simp
      also have "\<dots> = pid ` set (players st)" unfolding pid1 by simp
      finally show ?thesis using sub by simp
    qed
    obtain st' where r: "loseLoop skip msg rest ?st1 = Inr st'"
      "players st' = map (loseOne skip rest) (players ?st1)"
      "st'\<lparr>players := players ?st1, lastActionLog := lastActionLog ?st1\<rparr> = ?st1"
      using Cons.IH [OF d1 dr sub1] by blast
    have comp: "loseOne skip rest (if pid p = i then loseLives p 1 else p) = loseOne skip (i # rest) p"
      for p
      using False inr by (auto simp: loseOne_def)
    have pl: "players st' = map (loseOne skip (i # rest)) (players st)"
      unfolding r(2) pl1' by (simp add: comp_def comp)
    have fr: "st'\<lparr>players := players st, lastActionLog := lastActionLog st\<rparr> = st"
    proof -
      have "st'\<lparr>players := players st, lastActionLog := lastActionLog st\<rparr>
          = (st'\<lparr>players := players ?st1, lastActionLog := lastActionLog ?st1\<rparr>)
              \<lparr>players := players st, lastActionLog := lastActionLog st\<rparr>" by simp
      also have "\<dots> = ?st1\<lparr>players := players st, lastActionLog := lastActionLog st\<rparr>"
        unfolding r(3) ..
      also have "\<dots> = st" by (simp add: pushLog_def)
      finally show ?thesis .
    qed
    show ?thesis using step r(1) pl fr by simp
  qed
qed

section \<open>Dealing with an eliminated seat\<close>

definition exDealState :: GameState where
  "exDealState =
     exState [exPlayer ''a'' HUMAN [] 2, exPlayer ''b'' CPU [] 0, exPlayer ''c'' CPU [] 2] HAND_OVER"

text \<open>
  C1. In phases PLAYING and KNOCKED every non-eliminated player should hold exactly 3
  cards, and \<open>startHand\<close> should deal exactly 3 cards to each of them. The loop
  that builds \<open>order\<close> runs once per seat, eliminated or not, so with an
  eliminated seat it wraps around and lists a player twice: with three seats, the middle
  one eliminated and the dealer at seat 0, the deal leaves seat 2 with 6 cards while the
  hand is in phase PLAYING.
\<close>

theorem startHand_eliminated_seat_six_cards:
  "(case startHand exDealState of
      Inl e \<Rightarrow> False
    | Inr s \<Rightarrow> phase s = PLAYING
             \<and> map (\<lambda>p. (eliminated p, length (hand p))) (players s)
                 = [(False, 3), (True, 0), (False, 6)])"
  by code_simp

section \<open>The frame of a knock\<close>

lemma applyAction_KNOCK_Ok:
  assumes "applyAction st playerId KNOCK = Inr (Ok, st')"
  shows "st' = st\<lparr>phase := KNOCKED, knockedBy := Some playerId,
                  finalTurnsLeft := int (length (activePlayers st)) - 1,
                  turnIndex := nextActiveIndex st (turnIndex st),
                  lastActionLog := lastActionLog st @ [Line (name (turnPlayer st) @ '' knocks.'')],
                  players := (players st)[turnIndex st := clearTurn (turnPlayer st)]\<rparr>
       \<and> map hand (players st') = map hand (players st)
       \<and> map lives (players st') = map lives (players st)
       \<and> map eliminated (players st') = map eliminated (players st)
       \<and> stock st' = stock st \<and> discard st' = discard st
       \<and> dealerIndex st' = dealerIndex st \<and> winnerId st' = winnerId st \<and> seed st' = seed st"
proof -
  let ?t = "turnIndex st"
  let ?s1 = "startStage st"
  let ?n = "\<lambda>q. q\<lparr>turnStage := Some (stageOf q)\<rparr>"
  from assms have k: "applyKnock ?s1 playerId = Inr (Ok, st')"
    by (auto simp: applyAction_def reject_def Let_def split: if_splits)
  have s1: "?s1 = updTurnPlayer ?n st" by (rule startStage_eq)
  have el: "map eliminated (players ?s1) = map eliminated (players st)"
    unfolding s1 by (rule map_updTurnPlayer) simp
  have ap: "length (activePlayers ?s1) = length (activePlayers st)"
    using el by (rule activePlayers_length_cong)
  have nx: "nextActiveIndex ?s1 ?t = nextActiveIndex st ?t"
    using el by (rule nextActiveIndex_cong)
  have nm: "name (turnPlayer ?s1) = name (turnPlayer st)"
    unfolding s1 by (cases "?t < length (players st)")
      (simp_all add: turnPlayer_upd updTurnPlayer_def turnPlayer_def list_update_beyond not_less)
  have pl: "(players ?s1)[?t := clearTurn (turnPlayer ?s1)] = (players st)[?t := clearTurn (turnPlayer st)]"
    unfolding s1 by (cases "?t < length (players st)")
      (simp_all add: updTurnPlayer_def turnPlayer_def clearTurn_def list_update_beyond not_less)
  have fl: "phase ?s1 = phase st" "turnIndex ?s1 = ?t" "lastActionLog ?s1 = lastActionLog st"
    unfolding s1 by simp_all
  have rec: "?s1\<lparr>phase := a, knockedBy := b, finalTurnsLeft := c, turnIndex := d,
                   lastActionLog := e, players := f\<rparr>
           = st\<lparr>phase := a, knockedBy := b, finalTurnsLeft := c, turnIndex := d,
                   lastActionLog := e, players := f\<rparr>" for a b c d e f
    unfolding s1 by (simp add: updTurnPlayer_def)
  have main: "st' = st\<lparr>phase := KNOCKED, knockedBy := Some playerId,
                  finalTurnsLeft := int (length (activePlayers st)) - 1,
                  turnIndex := nextActiveIndex st (turnIndex st),
                  lastActionLog := lastActionLog st @ [Line (name (turnPlayer st) @ '' knocks.'')],
                  players := (players st)[turnIndex st := clearTurn (turnPlayer st)]\<rparr>"
    using applyKnock_Ok(1) [OF k] by (simp only: fl ap nx nm pl rec)
  have h: "map hand ((players st)[?t := clearTurn (turnPlayer st)]) = map hand (players st)"
          "map lives ((players st)[?t := clearTurn (turnPlayer st)]) = map lives (players st)"
          "map eliminated ((players st)[?t := clearTurn (turnPlayer st)]) = map eliminated (players st)"
    by (simp_all add: turnPlayer_def)
  have rest: "map hand (players st') = map hand (players st)
       \<and> map lives (players st') = map lives (players st)
       \<and> map eliminated (players st') = map eliminated (players st)
       \<and> stock st' = stock st \<and> discard st' = discard st
       \<and> dealerIndex st' = dealerIndex st \<and> winnerId st' = winnerId st \<and> seed st' = seed st"
    by (subst main)+ (simp add: h)
  from main rest show ?thesis by (rule conjI)
qed

text \<open>
  C10. A successful KNOCK changes only the phase (to KNOCKED), \<open>knockedBy\<close>,
  \<open>finalTurnsLeft\<close>, \<open>turnIndex\<close>, the log and the knocker's
  turn-scoped fields: every hand, every player's lives and eliminated flag, the stock,
  the discard pile, \<open>dealerIndex\<close>, \<open>winnerId\<close> and the seed are as
  before.
\<close>

theorem knock_frame:
  assumes "applyAction st playerId KNOCK = Inr (Ok, st')"
  shows "st' = st\<lparr>phase := KNOCKED, knockedBy := Some playerId,
                  finalTurnsLeft := int (length (activePlayers st)) - 1,
                  turnIndex := nextActiveIndex st (turnIndex st),
                  lastActionLog := lastActionLog st @ [Line (name (turnPlayer st) @ '' knocks.'')],
                  players := (players st)[turnIndex st := clearTurn (turnPlayer st)]\<rparr>
       \<and> map hand (players st') = map hand (players st)
       \<and> map lives (players st') = map lives (players st)
       \<and> map eliminated (players st') = map eliminated (players st)
       \<and> stock st' = stock st \<and> discard st' = discard st
       \<and> dealerIndex st' = dealerIndex st \<and> winnerId st' = winnerId st \<and> seed st' = seed st"
  using assms by (rule applyAction_KNOCK_Ok)

theorem knock_frame_witness:
  "applyAction exPlayState ''a'' KNOCK
     = Inr (Ok, exPlayState\<lparr>phase := KNOCKED, knockedBy := Some ''a'', finalTurnsLeft := 1,
                            turnIndex := 1, lastActionLog := [Line ''a knocks.'']\<rparr>)
   \<and> map hand (players (exPlayState\<lparr>phase := KNOCKED, knockedBy := Some ''a'', finalTurnsLeft := 1,
                            turnIndex := 1, lastActionLog := [Line ''a knocks.'']\<rparr>))
       = map hand (players exPlayState)
   \<and> stock (exPlayState\<lparr>phase := KNOCKED, knockedBy := Some ''a'', finalTurnsLeft := 1,
                            turnIndex := 1, lastActionLog := [Line ''a knocks.'']\<rparr>)
       = stock exPlayState"
proof -
  have run: "applyAction exPlayState ''a'' KNOCK
     = Inr (Ok, exPlayState\<lparr>phase := KNOCKED, knockedBy := Some ''a'', finalTurnsLeft := 1,
                            turnIndex := 1, lastActionLog := [Line ''a knocks.'']\<rparr>)"
    by code_simp
  note f = knock_frame [OF run]
  from f have h: "map hand (players (exPlayState\<lparr>phase := KNOCKED, knockedBy := Some ''a'', finalTurnsLeft := 1,
                            turnIndex := 1, lastActionLog := [Line ''a knocks.'']\<rparr>))
       = map hand (players exPlayState)" by blast
  from f have s: "stock (exPlayState\<lparr>phase := KNOCKED, knockedBy := Some ''a'', finalTurnsLeft := 1,
                            turnIndex := 1, lastActionLog := [Line ''a knocks.'']\<rparr>)
       = stock exPlayState" by blast
  from run h s show ?thesis by (intro conjI)
qed

section \<open>Discarding from four cards\<close>



section \<open>What a view reveals\<close>

lemma viewPlayer_fields:
  "v_id (viewPlayer st viewerId p) = pid p"
  "v_name (viewPlayer st viewerId p) = name p"
  "v_type (viewPlayer st viewerId p) = ptype p"
  "v_lives (viewPlayer st viewerId p) = lives p"
  "v_eliminated (viewPlayer st viewerId p) = eliminated p"
  "handCount (viewPlayer st viewerId p) = length (hand p)"
  "revealedHand (viewPlayer st viewerId p) =
     (if revealAll st \<or> (viewerId = Some (pid p) \<and> pid p \<noteq> []) then Some (hand p) else None)"
  "revealedValue (viewPlayer st viewerId p) =
     (if revealAll st then Some (handValue (hand p) (rules st)) else None)"
  by (auto simp: viewPlayer_def Let_def truthy_def split: option.splits)

lemma v_players_makeClientView:
  "v_players (makeClientView st viewerId) = map (viewPlayer st viewerId) (players st)"
  by (simp add: makeClientView_def Let_def)

text \<open>
  C6, as the code has it. For every state and viewer (a seat id, or none for the
  spectator), the entry of a seat in the view carries the seat's id, name, type, lives,
  eliminated flag and hand count; its hand if and only if the phase is SHOWDOWN, HAND_OVER
  or GAME_OVER or the viewer is that seat (named by a non-empty id); and its hand value if
  and only if the phase is SHOWDOWN, HAND_OVER or GAME_OVER.
\<close>

theorem view_reveals:
  assumes "i < length (players st)"
  shows "length (v_players (makeClientView st viewerId)) = length (players st)
     \<and> (let p = players st ! i; v = v_players (makeClientView st viewerId) ! i
        in v_id v = pid p \<and> v_name v = name p \<and> v_type v = ptype p \<and> v_lives v = lives p
         \<and> v_eliminated v = eliminated p \<and> handCount v = length (hand p)
         \<and> revealedHand v =
             (if revealAll st \<or> (viewerId = Some (pid p) \<and> pid p \<noteq> []) then Some (hand p) else None)
         \<and> revealedValue v =
             (if revealAll st then Some (handValue (hand p) (rules st)) else None))"
  using assms
  by (simp add: v_players_makeClientView viewPlayer_fields Let_def)

theorem view_own_value_hidden_counterexample:
  "phase exPlayState = PLAYING
   \<and> pid (players exPlayState ! 0) = ''a''
   \<and> revealedHand (v_players (makeClientView exPlayState (Some ''a'')) ! 0)
       = Some (hand (players exPlayState ! 0))
   \<and> revealedValue (v_players (makeClientView exPlayState (Some ''a'')) ! 0) = None"
  by code_simp

theorem view_reveals_witness:
  "revealedHand (v_players (makeClientView exPlayState (Some ''a'')) ! 1) = None
   \<and> revealedValue (v_players (makeClientView exPlayState (Some ''a'')) ! 1) = None
   \<and> handCount (v_players (makeClientView exPlayState (Some ''a'')) ! 1) = 3
   \<and> revealedHand (v_players (makeClientView exPlayState (Some ''a'')) ! 0)
       = Some (hand (players exPlayState ! 0))"
proof -
  have l0: "0 < length (players exPlayState)" and l1: "1 < length (players exPlayState)"
    by code_simp+
  have ra: "\<not> revealAll exPlayState" by code_simp
  have p0: "pid (players exPlayState ! 0) = ''a''" and p1: "pid (players exPlayState ! 1) = ''b''"
    by code_simp+
  have h1: "length (hand (players exPlayState ! 1)) = 3" by code_simp
  from view_reveals [OF l1, of "Some ''a''"] view_reveals [OF l0, of "Some ''a''"] ra p0 p1 h1
  show ?thesis by (simp add: Let_def)
qed

section \<open>A CPU seat whose knock is refused\<close>

definition exCpuRoom :: Room where
  "exCpuRoom =
     \<lparr>room_id = ''ROOM1'',
      state = (exState
                 [exPlayer ''cpu-1'' CPU
                    [card SuitS RankK ''SK-1'', card SuitS RankQ ''SQ-2'', card SuitS Rank9 ''S9-5''] 3,
                  exPlayer ''host'' HUMAN
                    [card SuitH Rank2 ''H2-25'', card SuitD Rank5 ''D5-35'', card SuitC Rank7 ''C7-46''] 3]
                 KNOCKED)
              \<lparr>knockedBy := Some ''host'', finalTurnsLeft := 1,
               stock := [card SuitD RankA ''DA-26''], discard := [card SuitC Rank3 ''C3-50'']\<rparr>,
      cpuDifficulty = medium\<rparr>"

text \<open>
  C7. A CPU seat whose hand value reaches its knock threshold while knocking is not legal
  should go on to draw. In the code it tries the KNOCK, is rejected and returns: with the
  phase KNOCKED and a medium CPU holding 29, \<open>maybeRunCpuTurn\<close> reports no
  action, and leaves every hand and the turn where they were.
\<close>

theorem cpu_stalls_when_knock_is_refused:
  "handValue (hand (turnPlayer (state exCpuRoom))) (rules (state exCpuRoom)) = 29
   \<and> knockThreshold (cpuDifficulty exCpuRoom) = 27
   \<and> \<not> canKnock (state exCpuRoom) ''cpu-1''
   \<and> applyAction (state exCpuRoom) ''cpu-1'' KNOCK
        = Inr (Rejected ''Knock not allowed.'', startStage (state exCpuRoom))
   \<and> maybeRunCpuTurn exCpuRoom rnd
        = Inr (exCpuRoom\<lparr>state := startStage (state exCpuRoom)\<rparr>, [])
   \<and> map hand (players (startStage (state exCpuRoom))) = map hand (players (state exCpuRoom))
   \<and> turnIndex (startStage (state exCpuRoom)) = turnIndex (state exCpuRoom)"
  by code_simp

section \<open>Rejected actions\<close>

lemma length_shuffleLoop [simp]: "length (shuffleLoop i s arr) = length arr"
  by (induction i arbitrary: s arr) (simp_all add: Let_def)

lemma length_shuffleInPlace [simp]: "length (shuffleInPlace arr sd) = length arr"
  by (simp add: shuffleInPlace_def)










section \<open>The showdown, player by player\<close>

lemma mathMin_Min: "xs \<noteq> [] \<Longrightarrow> mathMin xs = Min (set xs)"
proof (cases xs)
  case Nil
  then show "xs \<noteq> [] \<Longrightarrow> ?thesis" by simp
next
  case (Cons x ys)
  then show ?thesis by (simp only: mathMin.simps Min.set_eq_fold)
qed

text \<open>The showdown as section 4.4 of the specification words it: the players tied for
  the lowest value among the non-eliminated ones, and what each player loses.\<close>

definition tiedLowest :: "GameState \<Rightarrow> Player \<Rightarrow> bool" where
  "tiedLowest st p =
     (\<not> eliminated p \<and>
      (\<forall>q \<in> set (players st). \<not> eliminated q \<longrightarrow>
         handValue (hand p) (rules st) \<le> handValue (hand q) (rules st)))"



lemma tiedLowest_Min:
  assumes "p \<in> set ps" and "players st = ps"
  shows "tiedLowest st p \<longleftrightarrow>
         \<not> eliminated p \<and> handValue (hand p) (rules st)
            = Min ((\<lambda>q. handValue (hand q) (rules st)) ` set (filter (\<lambda>q. \<not> eliminated q) ps))"
proof (cases "eliminated p")
  case True
  then show ?thesis by (simp add: tiedLowest_def)
next
  case False
  let ?hv = "\<lambda>q. handValue (hand q) (rules st)"
  let ?A = "?hv ` set (filter (\<lambda>q. \<not> eliminated q) ps)"
  have fin: "finite ?A" by simp
  have pin: "?hv p \<in> ?A" using assms(1) False by auto
  have "(\<forall>q \<in> set ps. \<not> eliminated q \<longrightarrow> ?hv p \<le> ?hv q) \<longleftrightarrow> (\<forall>a \<in> ?A. ?hv p \<le> a)"
    by auto
  also have "\<dots> \<longleftrightarrow> ?hv p \<le> Min ?A"
    using fin pin by (subst Min_ge_iff) auto
  also have "\<dots> \<longleftrightarrow> ?hv p = Min ?A"
    using Min_le [OF fin pin] by auto
  finally show ?thesis using False assms(2) by (simp add: tiedLowest_def)
qed

lemma lowestIds_eq:
  "lowestIds st = map pid (filter (tiedLowest st) (players st))"
proof (cases "filter (\<lambda>p. \<not> eliminated p) (players st) = []")
  case True
  then have "\<forall>p \<in> set (players st). eliminated p" by (simp add: filter_empty_conv)
  then have "filter (tiedLowest st) (players st) = []"
    by (auto simp: filter_empty_conv tiedLowest_def)
  then show ?thesis using True by (simp add: lowestIds_def)
next
  case False
  let ?hv = "\<lambda>q. handValue (hand q) (rules st)"
  let ?act = "filter (\<lambda>p. \<not> eliminated p) (players st)"
  let ?mn = "Min (?hv ` set ?act)"
  have mm: "mathMin (map snd (map (\<lambda>p. (pid p, ?hv p)) ?act)) = ?mn"
    using False by (subst mathMin_Min) (simp_all add: comp_def image_image)
  have "lowestIds st
      = map fst (filter (\<lambda>s. snd s = ?mn) (map (\<lambda>p. (pid p, ?hv p)) ?act))"
    using False mm by (simp add: lowestIds_def Let_def)
  also have "\<dots> = map pid (filter (\<lambda>p. ?hv p = ?mn) ?act)"
    by (simp add: filter_map comp_def)
  also have "filter (\<lambda>p. ?hv p = ?mn) ?act
           = filter (\<lambda>p. \<not> eliminated p \<and> ?hv p = ?mn) (players st)"
    by (simp add: conj_commute)
  also have "\<dots> = filter (tiedLowest st) (players st)"
    by (rule filter_cong) (simp_all add: tiedLowest_Min [OF _ refl])
  finally show ?thesis .
qed

lemma lowestIds_subset: "set (lowestIds st) \<subseteq> pid ` set (players st)"
  by (auto simp: lowestIds_eq)

lemma lowestIds_distinct:
  "distinct (map pid (players st)) \<Longrightarrow> distinct (lowestIds st)"
  by (simp add: lowestIds_eq distinct_map_filter)





lemma those_Some:
  "(\<And>x. x \<in> set xs \<Longrightarrow> f x \<noteq> None) \<Longrightarrow> \<exists>ys. those (map f xs) = Some ys"
proof (induction xs)
  case Nil
  then show ?case by simp
next
  case (Cons a xs)
  then obtain ys where "those (map f xs) = Some ys" by auto
  moreover obtain y where "f a = Some y" using Cons.prems [of a] by auto
  ultimately show ?case by simp
qed

lemma showdown_entries:
  "\<exists>entries. those (map (\<lambda>s. map_option (\<lambda>p. (name p, snd s)) (find (\<lambda>p. pid p = fst s) (players st)))
                (map (\<lambda>p. (pid p, handValue (hand p) (rules st)))
                   (filter (\<lambda>p. \<not> eliminated p) (players st)))) = Some entries"
proof (rule those_Some)
  fix x
  assume "x \<in> set (map (\<lambda>p. (pid p, handValue (hand p) (rules st)))
                 (filter (\<lambda>p. \<not> eliminated p) (players st)))"
  then obtain p where "p \<in> set (players st)" "fst x = pid p" by auto
  then have "find (\<lambda>q. pid q = fst x) (players st) \<noteq> None"
    by (auto simp: find_None_iff)
  then show "map_option (\<lambda>p. (name p, snd x)) (find (\<lambda>p. pid p = fst x) (players st)) \<noteq> None"
    by simp
qed

text \<open>What the showdown does to one player, read off the code.\<close>

definition showdownPlayer :: "GameState \<Rightarrow> Player \<Rightarrow> Player" where
  "showdownPlayer st p =
     (if knockedBy st \<noteq> None \<and> length (lowestIds st) = 1 \<and> Some (lowestIds st ! 0) = knockedBy st
      then (if Some (pid p) = knockedBy st then loseLives p 2 else p)
      else if (case knockedBy st of None \<Rightarrow> False | Some k \<Rightarrow> k \<in> set (lowestIds st))
      then loseOne (knockedBy st) (lowestIds st) p
      else loseOne None (lowestIds st) p)"

lemma scoreShowdown_players:
  assumes d: "distinct (map pid (players st))"
  shows "\<exists>st3. scoreShowdown st = Inr st3
           \<and> players st3 = map (showdownPlayer st) (players st)
           \<and> st3\<lparr>players := players st, lastActionLog := lastActionLog st,
                  winnerId := winnerId st, phase := phase st\<rparr> = st
           \<and> (phase st3 = HAND_OVER \<or> phase st3 = GAME_OVER)"
proof -
  obtain entries where en: "those (map (\<lambda>s. map_option (\<lambda>p. (name p, snd s)) (find (\<lambda>p. pid p = fst s) (players st)))
                (map (\<lambda>p. (pid p, handValue (hand p) (rules st)))
                   (filter (\<lambda>p. \<not> eliminated p) (players st)))) = Some entries"
    using showdown_entries by blast
  let ?st1 = "pushLog (ShowdownLine entries) st"
  let ?KIL = "knockedBy st \<noteq> None \<and> length (lowestIds st) = 1 \<and> Some (lowestIds st ! 0) = knockedBy st"
  let ?INC = "case knockedBy st of None \<Rightarrow> False | Some k \<Rightarrow> k \<in> set (lowestIds st)"
  let ?pen = "if ?KIL then
                      (case findIndex (\<lambda>p. Some (pid p) = knockedBy st) (players ?st1) of
                         None \<Rightarrow> Inl TypeError
                       | Some k \<Rightarrow>
                           let kp = players ?st1 ! k;
                               st2 = pushLog (Line (name kp
                                       @ '' knocked and is the sole lowest: loses 2 lives.'')) ?st1
                           in Inr (st2\<lparr>players := (players st2)[k := loseLives kp 2]\<rparr>))
                    else if ?INC then tieLoop (the (knockedBy st)) (lowestIds st) ?st1
                    else lowestLoop (lowestIds st) ?st1"
  have p1: "players ?st1 = players st" by (simp add: pushLog_def)
  have r1: "?st1\<lparr>players := players st, lastActionLog := lastActionLog st\<rparr> = st"
    by (simp add: pushLog_def)
  have d1: "distinct (map pid (players ?st1))" using d p1 by simp
  have sub1: "set (lowestIds st) \<subseteq> pid ` set (players ?st1)" using lowestIds_subset p1 by simp
  have dl: "distinct (lowestIds st)" using d by (rule lowestIds_distinct)
  have loop: "\<exists>st2. loseLoop skip msg (lowestIds st) ?st1 = Inr st2
            \<and> players st2 = map (loseOne skip (lowestIds st)) (players st)
            \<and> st2\<lparr>players := players st, lastActionLog := lastActionLog st\<rparr> = st" for skip msg
  proof -
    obtain st2 where r: "loseLoop skip msg (lowestIds st) ?st1 = Inr st2"
        "players st2 = map (loseOne skip (lowestIds st)) (players ?st1)"
        "st2\<lparr>players := players ?st1, lastActionLog := lastActionLog ?st1\<rparr> = ?st1"
      using loseLoop_players [OF d1 dl sub1] by blast
    have "st2\<lparr>players := players st, lastActionLog := lastActionLog st\<rparr>
        = (st2\<lparr>players := players ?st1, lastActionLog := lastActionLog ?st1\<rparr>)
            \<lparr>players := players st, lastActionLog := lastActionLog st\<rparr>" by simp
    also have "\<dots> = st" unfolding r(3) by (rule r1)
    finally show ?thesis using r(1,2) p1 by simp
  qed
  have pen: "\<exists>st2. ?pen = Inr st2
            \<and> players st2 = map (showdownPlayer st) (players st)
            \<and> st2\<lparr>players := players st, lastActionLog := lastActionLog st\<rparr> = st"
  proof (cases ?KIL)
    case True
    then obtain i where li: "lowestIds st = [i]" and kb: "knockedBy st = Some i"
      by (cases "lowestIds st") auto
    have "i \<in> pid ` set (players st)" using lowestIds_subset [of st] li by simp
    then have "findIndex (\<lambda>p. Some (pid p) = knockedBy st) (players ?st1) \<noteq> None"
      using kb p1 by (auto simp: findIndex_None)
    then obtain k where k: "findIndex (\<lambda>p. Some (pid p) = knockedBy st) (players ?st1) = Some k"
      by blast
    have kl: "k < length (players st)" and kp: "pid (players st ! k) = i"
      using findIndex_Some [OF k] kb p1 by simp_all
    have upd: "(players st)[k := loseLives (players st ! k) 2]
             = map (\<lambda>p. if pid p = i then loseLives (players st ! k) 2 else p) (players st)"
      using distinct_pid_update [OF d kl, of "loseLives (players st ! k) 2"] kp by simp
    have "(if pid p = i then loseLives (players st ! k) 2 else p) = showdownPlayer st p"
      if "p \<in> set (players st)" for p
    proof (cases "pid p = i")
      case pi: True
      then have "p = players st ! k"
        using d that kl kp by (metis distinct_map inj_on_def nth_mem)
      then show ?thesis using True kb pi by (simp add: showdownPlayer_def)
    next
      case False
      then show ?thesis using True kb by (simp add: showdownPlayer_def)
    qed
    then have m: "(players st)[k := loseLives (players st ! k) 2] = map (showdownPlayer st) (players st)"
      unfolding upd by (simp cong: map_cong)
    have "?pen = Inr ((pushLog (Line (name (players st ! k)
                     @ '' knocked and is the sole lowest: loses 2 lives.'')) ?st1)
                   \<lparr>players := (players st)[k := loseLives (players st ! k) 2]\<rparr>)"
      using True k p1 by (simp add: Let_def pushLog_def)
    then show ?thesis
      unfolding m by (simp add: pushLog_def)
  next
    case nk: False
    show ?thesis
    proof (cases ?INC)
      case True
      then obtain kk where kk: "knockedBy st = Some kk" by (cases "knockedBy st") auto
      have sp: "showdownPlayer st = loseOne (Some kk) (lowestIds st)"
        using nk True kk by (intro ext) (auto simp: showdownPlayer_def)
      have "?pen = loseLoop (Some kk) '' ties lowest with knocker: loses 1 life.'' (lowestIds st) ?st1"
        by (subst if_not_P [OF nk], subst if_P [OF True]) (simp add: tieLoop_def kk)
      then show ?thesis using loop [of "Some kk"] sp by simp
    next
      case False
      have sp: "showdownPlayer st = loseOne None (lowestIds st)"
        using nk False by (intro ext) (auto simp: showdownPlayer_def)
      have "?pen = loseLoop None '' is lowest: loses 1 life.'' (lowestIds st) ?st1"
        by (subst if_not_P [OF nk], subst if_not_P [OF False]) (simp add: lowestLoop_def)
      then show ?thesis using loop [of None] sp by simp
    qed
  qed
  then obtain st2 where st2: "?pen = Inr st2"
     and pl2: "players st2 = map (showdownPlayer st) (players st)"
     and fr2: "st2\<lparr>players := players st, lastActionLog := lastActionLog st\<rparr> = st"
    by blast
  have eq0: "scoreShowdown st =
       (case ?pen of Inl e \<Rightarrow> Inl e
        | Inr st3 \<Rightarrow> Inr (resolvePhase (finishElimsAndMaybeGameOver st3)))"
    unfolding scoreShowdown_def Let_def en option.case by (rule refl)
  have eq: "scoreShowdown st = Inr (resolvePhase (finishElimsAndMaybeGameOver st2))"
    unfolding eq0 st2 by simp
  let ?st3 = "resolvePhase (finishElimsAndMaybeGameOver st2)"
  have pl3: "players ?st3 = players st2"
    by (simp add: resolvePhase_def finishElimsAndMaybeGameOver_def Let_def)
  have ph3: "phase ?st3 = HAND_OVER \<or> phase ?st3 = GAME_OVER"
    by (simp add: resolvePhase_def)
  have "?st3\<lparr>players := players st, lastActionLog := lastActionLog st,
                  winnerId := winnerId st, phase := phase st\<rparr>
      = (st2\<lparr>players := players st, lastActionLog := lastActionLog st\<rparr>)
          \<lparr>winnerId := winnerId st, phase := phase st\<rparr>"
    by (simp add: resolvePhase_def finishElimsAndMaybeGameOver_def Let_def)
  also have "\<dots> = st" unfolding fr2 by simp
  finally have fr3: "?st3\<lparr>players := players st, lastActionLog := lastActionLog st,
                  winnerId := winnerId st, phase := phase st\<rparr> = st" .
  show ?thesis
    apply (rule exI [of _ ?st3])
    apply (intro conjI)
       apply (rule eq)
      apply (simp only: pl3 pl2)
     apply (rule fr3)
    apply (rule ph3)
    done
qed








section \<open>The discard branch\<close>

text \<open>The state of the DISCARD branch once the card at \<open>idx\<close> has left the hand of
  the player to act and lies on the discard pile.\<close>

definition discarded :: "GameState \<Rightarrow> nat \<Rightarrow> GameState" where
  "discarded st idx =
     (updTurnPlayer (\<lambda>q. q\<lparr>hand := take idx (hand q) @ drop (Suc idx) (hand q)\<rparr>) st)
       \<lparr>discard := discard st @ [hand (turnPlayer st) ! idx]\<rparr>"

lemma discarded_fields [simp]:
  "turnIndex (discarded st idx) = turnIndex st"
  "phase (discarded st idx) = phase st"
  "rules (discarded st idx) = rules st"
  "knockedBy (discarded st idx) = knockedBy st"
  "finalTurnsLeft (discarded st idx) = finalTurnsLeft st"
  "lastActionLog (discarded st idx) = lastActionLog st"
  "length (players (discarded st idx)) = length (players st)"
  "map pid (players (discarded st idx)) = map pid (players st)"
  "map name (players (discarded st idx)) = map name (players st)"
  "map lives (players (discarded st idx)) = map lives (players st)"
  "map eliminated (players (discarded st idx)) = map eliminated (players st)"
  by (simp_all add: discarded_def map_updTurnPlayer)




lemma showdownPlayer_fields [simp]:
  "hand (showdownPlayer st p) = hand p"
  "pid (showdownPlayer st p) = pid p"
  by (simp_all add: showdownPlayer_def loseOne_def)

lemma clearTurn_fields [simp]:
  "hand (clearTurn p) = hand p" "pid (clearTurn p) = pid p" "lives (clearTurn p) = lives p"
  "name (clearTurn p) = name p"
  "turnStage (clearTurn p) = None" "drawnCardId (clearTurn p) = None"
  "tookDiscardId (clearTurn p) = None"
  by (simp_all add: clearTurn_def)



section \<open>A discard that makes 31\<close>


lemma eliminated_clearTurn [simp]: "eliminated (clearTurn p) = eliminated p"
  by (simp add: clearTurn_def)

text \<open>What the 31 declaration does to one player.\<close>

definition declare31Player :: "string \<Rightarrow> Player \<Rightarrow> Player" where
  "declare31Player winner op =
     clearTurn (if eliminated op then op
                else if pid op = winner then op
                else loseLives op 1)"



lemma eliminated_declare31Player_self:
  "pid op = w \<Longrightarrow> eliminated (declare31Player w op) = eliminated op"
  by (simp add: declare31Player_def)






section \<open>After a knock: the final turns\<close>

text \<open>A sequence of submitted actions, each with the id of the player who submits it.\<close>

fun runActions :: "GameState \<Rightarrow> (string \<times> Action) list \<Rightarrow> exn + GameState" where
  "runActions st [] = Inr st"
| "runActions st ((p, a) # rest) =
     (case applyAction st p a of Inl e \<Rightarrow> Inl e | Inr (r, st1) \<Rightarrow> runActions st1 rest)"

text \<open>The steps of such a sequence that satisfy \<open>P\<close>, counted.\<close>

fun countSteps ::
  "(GameState \<Rightarrow> string \<Rightarrow> Action \<Rightarrow> bool) \<Rightarrow> GameState \<Rightarrow> (string \<times> Action) list \<Rightarrow> nat" where
  "countSteps P st [] = 0"
| "countSteps P st ((p, a) # rest) =
     (if P st p a then 1 else 0)
     + (case applyAction st p a of Inl e \<Rightarrow> 0 | Inr (r, st1) \<Rightarrow> countSteps P st1 rest)"

text \<open>A completed DISCARD while the phase is KNOCKED that does not leave 31 in the
  discarding player's hand; one that leaves 31; one of the first kind by the knocker.\<close>

definition plainDiscard :: "GameState \<Rightarrow> string \<Rightarrow> Action \<Rightarrow> bool" where
  "plainDiscard st p a =
     (case a of
        DISCARD c \<Rightarrow>
          (case applyAction st p a of
             Inr (Ok, st') \<Rightarrow>
               phase st = KNOCKED \<and> \<not> hasExact31 (hand (players st' ! turnIndex st)) (rules st)
           | _ \<Rightarrow> False)
      | _ \<Rightarrow> False)"

definition declares31 :: "GameState \<Rightarrow> string \<Rightarrow> Action \<Rightarrow> bool" where
  "declares31 st p a =
     (case a of
        DISCARD c \<Rightarrow>
          (case applyAction st p a of
             Inr (Ok, st') \<Rightarrow> hasExact31 (hand (players st' ! turnIndex st)) (rules st)
           | _ \<Rightarrow> False)
      | _ \<Rightarrow> False)"

definition knockerDiscard :: "GameState \<Rightarrow> string \<Rightarrow> Action \<Rightarrow> bool" where
  "knockerDiscard st p a = (plainDiscard st p a \<and> knockedBy st = Some p)"

text \<open>The showdowns a log records: \<open>scoreShowdown\<close> pushes one "Showdown." line each
  time it runs, and nothing else does.\<close>

fun isShowdownLine :: "LogLine \<Rightarrow> bool" where
  "isShowdownLine (ShowdownLine e) = True"
| "isShowdownLine (Line t) = False"

definition showdownLines :: "GameState \<Rightarrow> nat" where
  "showdownLines st = length (filter isShowdownLine (lastActionLog st))"

text \<open>What the turns of a knocked hand depend on is the same in both states.\<close>

definition sameTable :: "GameState \<Rightarrow> GameState \<Rightarrow> bool" where
  "sameTable s s' =
     (phase s' = phase s \<and> finalTurnsLeft s' = finalTurnsLeft s \<and> turnIndex s' = turnIndex s
      \<and> knockedBy s' = knockedBy s
      \<and> map eliminated (players s') = map eliminated (players s)
      \<and> map pid (players s') = map pid (players s)
      \<and> showdownLines s' = showdownLines s)"

lemma sameTable_refl: "sameTable s s"
  by (simp add: sameTable_def)

lemma sameTable_trans [trans]: "sameTable a b \<Longrightarrow> sameTable b c \<Longrightarrow> sameTable a c"
  by (simp add: sameTable_def)

lemma sameTable_updTurnPlayer:
  assumes "\<And>q. eliminated (f q) = eliminated q" and "\<And>q. pid (f q) = pid q"
  shows "sameTable s (updTurnPlayer f s)"
  using assms by (simp add: sameTable_def map_updTurnPlayer showdownLines_def)

lemma sameTable_startStage: "sameTable s (startStage s)"
  unfolding startStage_eq by (rule sameTable_updTurnPlayer) simp_all

lemma sameTable_pushLine: "sameTable s (pushLog (Line t) s)"
  by (simp add: sameTable_def pushLog_def showdownLines_def)

lemma sameTable_refill: "refillStockFromDiscard s = (ok, s1) \<Longrightarrow> sameTable s s1"
  by (auto simp: refillStockFromDiscard_def Let_def sameTable_def pushLog_def showdownLines_def
      split: if_splits)

lemma applyKnock_not_playing:
  "phase s \<noteq> PLAYING \<Longrightarrow> \<exists>e. applyKnock s p = Inr (Rejected e, s)"
  by (simp add: applyKnock_def reject_def canKnock_def Let_def)

lemma applyDrawDiscard_sameTable:
  "\<exists>r s'. applyDrawDiscard s = Inr (r, s') \<and> sameTable s s'"
proof (cases "turnStage (turnPlayer s) \<noteq> Some START \<or> discard s = []")
  case True
  then show ?thesis by (auto simp: applyDrawDiscard_def reject_def Let_def sameTable_refl)
next
  case False
  let ?c = "last (discard s)"
  let ?s1 = "s\<lparr>discard := butlast (discard s)\<rparr>"
  let ?s2 = "updTurnPlayer (\<lambda>q. q\<lparr>hand := hand q @ [?c]\<rparr>) ?s1"
  let ?s3 = "updTurnPlayer (\<lambda>q. q\<lparr>tookDiscardId := Some (cid ?c)\<rparr>) ?s2"
  let ?s4 = "updTurnPlayer (\<lambda>q. q\<lparr>turnStage := Some DREW\<rparr>) ?s3"
  let ?s5 = "pushLog (Line (name (turnPlayer s) @ '' takes the top discard.'')) ?s4"
  have "applyDrawDiscard s = Inr (Ok, ?s5)"
    using False by (simp add: applyDrawDiscard_def Let_def)
  moreover have "sameTable s ?s5"
  proof -
    have "sameTable s ?s1" by (simp add: sameTable_def showdownLines_def)
    also have "sameTable ?s1 ?s2" by (rule sameTable_updTurnPlayer) simp_all
    also have "sameTable ?s2 ?s3" by (rule sameTable_updTurnPlayer) simp_all
    also have "sameTable ?s3 ?s4" by (rule sameTable_updTurnPlayer) simp_all
    also have "sameTable ?s4 ?s5" by (rule sameTable_pushLine)
    finally show ?thesis .
  qed
  ultimately show ?thesis by blast
qed

lemma drawn_sameTable:
  "sameTable s1
     (pushLog (Line t)
        (updTurnPlayer (\<lambda>q. q\<lparr>turnStage := Some DREW\<rparr>)
           (updTurnPlayer (\<lambda>q. q\<lparr>drawnCardId := Some i\<rparr>)
              (updTurnPlayer (\<lambda>q. q\<lparr>hand := hand q @ [c]\<rparr>)
                 (s1\<lparr>stock := butlast (stock s1)\<rparr>)))))"
proof -
  let ?a = "s1\<lparr>stock := butlast (stock s1)\<rparr>"
  let ?b = "updTurnPlayer (\<lambda>q. q\<lparr>hand := hand q @ [c]\<rparr>) ?a"
  let ?c = "updTurnPlayer (\<lambda>q. q\<lparr>drawnCardId := Some i\<rparr>) ?b"
  let ?d = "updTurnPlayer (\<lambda>q. q\<lparr>turnStage := Some DREW\<rparr>) ?c"
  have "sameTable s1 ?a" by (simp add: sameTable_def showdownLines_def)
  also have "sameTable ?a ?b" by (rule sameTable_updTurnPlayer) simp_all
  also have "sameTable ?b ?c" by (rule sameTable_updTurnPlayer) simp_all
  also have "sameTable ?c ?d" by (rule sameTable_updTurnPlayer) simp_all
  also have "sameTable ?d (pushLog (Line t) ?d)" by (rule sameTable_pushLine)
  finally show ?thesis .
qed

lemma applyDrawStock_sameTable:
  "\<exists>r s'. applyDrawStock s = Inr (r, s') \<and> sameTable s s'"
proof (cases "turnStage (turnPlayer s) = Some START")
  case False
  then show ?thesis by (auto simp: applyDrawStock_def reject_def Let_def sameTable_refl)
next
  case st: True
  obtain ok s1 where r: "(if stock s = [] then refillStockFromDiscard s else (True, s)) = (ok, s1)"
    by (cases "if stock s = [] then refillStockFromDiscard s else (True, s)")
  have t1: "sameTable s s1"
    using r by (auto simp: sameTable_refl sameTable_refill split: if_splits)
  show ?thesis
  proof (cases "\<not> ok \<or> stock s1 = []")
    case True
    then have "applyDrawStock s = Inr (Rejected ''No cards left to draw.'', s1)"
      using st r by (auto simp: applyDrawStock_def reject_def Let_def)
    then show ?thesis using t1 by blast
  next
    case False
    then have "applyDrawStock s = Inr (Ok,
       pushLog (Line (name (turnPlayer s) @ '' draws from stock.''))
        (updTurnPlayer (\<lambda>q. q\<lparr>turnStage := Some DREW\<rparr>)
           (updTurnPlayer (\<lambda>q. q\<lparr>drawnCardId := Some (cid (last (stock s1)))\<rparr>)
              (updTurnPlayer (\<lambda>q. q\<lparr>hand := hand q @ [last (stock s1)]\<rparr>)
                 (s1\<lparr>stock := butlast (stock s1)\<rparr>)))))"
      using st r by (simp add: applyDrawStock_def Let_def)
    moreover have "sameTable s
       (pushLog (Line (name (turnPlayer s) @ '' draws from stock.''))
        (updTurnPlayer (\<lambda>q. q\<lparr>turnStage := Some DREW\<rparr>)
           (updTurnPlayer (\<lambda>q. q\<lparr>drawnCardId := Some (cid (last (stock s1)))\<rparr>)
              (updTurnPlayer (\<lambda>q. q\<lparr>hand := hand q @ [last (stock s1)]\<rparr>)
                 (s1\<lparr>stock := butlast (stock s1)\<rparr>)))))"
      using t1 drawn_sameTable by (rule sameTable_trans)
    ultimately show ?thesis by blast
  qed
qed

lemma sameTable_discarded: "sameTable s (discarded s idx)"
  by (simp add: sameTable_def showdownLines_def)

lemma applyDiscard_cases:
  obtains (refused) e where "applyDiscard s c = Inr (Rejected e, s)"
  | (internal) idx where
      "applyDiscard s c = Inr (Rejected ''Internal error: hand size not 3.'', discarded s idx)"
  | (after) idx where "applyDiscard s c = afterDiscard (discarded s idx)"
proof (cases "turnStage (turnPlayer s) = Some DREW")
  case False
  then have "applyDiscard s c = Inr (Rejected ''You must draw first.'', s)"
    by (simp add: applyDiscard_def reject_def)
  then show ?thesis by (rule refused)
next
  case drew: True
  show ?thesis
  proof (cases "findIndex (\<lambda>x. cid x = c) (hand (turnPlayer s))")
    case None
    then have "applyDiscard s c = Inr (Rejected ''You don't have that card.'', s)"
      using drew by (simp add: applyDiscard_def reject_def)
    then show ?thesis by (rule refused)
  next
    case (Some idx)
    show ?thesis
    proof (cases "truthy (tookDiscardId (turnPlayer s)) \<and> tookDiscardId (turnPlayer s) = Some c")
      case True
      then have "truthy (Some c)" by metis
      then have "applyDiscard s c
        = Inr (Rejected ''Illegal: cannot discard the same card you took from discard.'', s)"
        using drew Some True by (simp add: applyDiscard_def reject_def)
      then show ?thesis by (rule refused)
    next
      case False
      have eq: "applyDiscard s c =
          (if length (hand (turnPlayer (discarded s idx))) \<noteq> 3
           then reject ''Internal error: hand size not 3.'' (discarded s idx)
           else afterDiscard (discarded s idx))"
        using drew Some False
        by (auto simp: applyDiscard_def Let_def discarded_def)
      show ?thesis
      proof (cases "length (hand (turnPlayer (discarded s idx))) = 3")
        case True
        then show ?thesis using eq by (intro after [of idx]) simp
      next
        case False
        then show ?thesis using eq by (intro internal [of idx]) (simp add: reject_def)
      qed
    qed
  qed
qed

lemma applyDiscard_Rejected_sameTable:
  assumes "applyDiscard s cardId = Inr (Rejected e, s')"
  shows "sameTable s s'"
proof (cases rule: applyDiscard_cases [of s cardId])
  case (refused e')
  then show ?thesis using assms by (simp add: sameTable_refl)
next
  case (internal idx)
  then show ?thesis using assms by (simp add: sameTable_discarded)
next
  case (after idx)
  then have "afterDiscard (discarded s idx) = Inr (Rejected e, s')" using assms by simp
  then show ?thesis using afterDiscard_not_rejected by blast
qed

lemma afterDiscard_total:
  assumes "distinct (map pid (players s))"
  shows "\<exists>s'. afterDiscard s = Inr (Ok, s')"
proof (cases "hasExact31 (hand (turnPlayer s)) (rules s)")
  case True
  then show ?thesis by (simp add: afterDiscard_def)
next
  case n31: False
  show ?thesis
  proof (cases "phase s = KNOCKED \<and> finalTurnsLeft s - 1 \<le> 0")
    case False
    then show ?thesis using n31 by (auto simp: afterDiscard_def Let_def pushLog_def)
  next
    case True
    let ?s2 = "(pushLog (Line (name (turnPlayer s) @ '' discards.'')) s)
                     \<lparr>finalTurnsLeft := finalTurnsLeft s - 1, phase := SHOWDOWN\<rparr>"
    have "distinct (map pid (players ?s2))" using assms by (simp add: pushLog_def)
    then obtain s3 where "scoreShowdown ?s2 = Inr s3" using scoreShowdown_players by blast
    then show ?thesis using n31 True by (simp add: afterDiscard_def Let_def pushLog_def)
  qed
qed

lemma applyDiscard_total:
  assumes "distinct (map pid (players s))"
  shows "\<exists>r s'. applyDiscard s cardId = Inr (r, s')"
proof (cases rule: applyDiscard_cases [of s cardId])
  case (refused e')
  then show ?thesis by blast
next
  case (internal idx)
  then show ?thesis by blast
next
  case (after idx)
  have "distinct (map pid (players (discarded s idx)))" using assms by simp
  then show ?thesis using after afterDiscard_total by metis
qed

lemma applyAction_total:
  assumes "distinct (map pid (players s))"
  shows "\<exists>r s'. applyAction s p a = Inr (r, s')"
proof (cases "(phase s \<noteq> PLAYING \<and> phase s \<noteq> KNOCKED) \<or> \<not> turnIndex s < length (players s)
              \<or> pid (turnPlayer s) \<noteq> p \<or> eliminated (turnPlayer s)")
  case True
  then show ?thesis by (auto simp: applyAction_def reject_def)
next
  case False
  have d1: "distinct (map pid (players (startStage s)))"
    using assms sameTable_startStage [of s] by (simp add: sameTable_def)
  have eq: "applyAction s p a = (case a of
             KNOCK \<Rightarrow> applyKnock (startStage s) p
           | DRAW_STOCK \<Rightarrow> applyDrawStock (startStage s)
           | DRAW_DISCARD \<Rightarrow> applyDrawDiscard (startStage s)
           | DISCARD cardId \<Rightarrow> applyDiscard (startStage s) cardId
           | OTHER \<Rightarrow> reject ''Unknown action.'' (startStage s))"
    using False by (auto simp: applyAction_def Let_def)
  show ?thesis
  proof (cases a)
    case DRAW_STOCK
    then show ?thesis using eq applyDrawStock_sameTable [of "startStage s"] by auto
  next
    case DRAW_DISCARD
    then show ?thesis using eq applyDrawDiscard_sameTable [of "startStage s"] by auto
  next
    case (DISCARD c)
    then show ?thesis using eq applyDiscard_total [OF d1] by auto
  next
    case KNOCK
    then show ?thesis unfolding eq by (auto simp: applyKnock_def reject_def Let_def)
  next
    case OTHER
    then show ?thesis unfolding eq by (simp add: reject_def)
  qed
qed

lemma applyAction_stay:
  assumes "phase s = KNOCKED" and "applyAction s p a = Inr (r, s')"
    and "r \<noteq> Ok \<or> (\<forall>c. a \<noteq> DISCARD c)"
  shows "sameTable s s'"
proof (cases "\<not> turnIndex s < length (players s)
              \<or> pid (turnPlayer s) \<noteq> p \<or> eliminated (turnPlayer s)")
  case True
  then have "s' = s" using assms(1,2) by (auto simp: applyAction_def reject_def split: if_splits)
  then show ?thesis by (simp add: sameTable_refl)
next
  case False
  have t1: "sameTable s (startStage s)" by (rule sameTable_startStage)
  then have ph1: "phase (startStage s) \<noteq> PLAYING" using assms(1) by (simp add: sameTable_def)
  have eq: "(case a of
             KNOCK \<Rightarrow> applyKnock (startStage s) p
           | DRAW_STOCK \<Rightarrow> applyDrawStock (startStage s)
           | DRAW_DISCARD \<Rightarrow> applyDrawDiscard (startStage s)
           | DISCARD cardId \<Rightarrow> applyDiscard (startStage s) cardId
           | OTHER \<Rightarrow> reject ''Unknown action.'' (startStage s)) = Inr (r, s')"
    using False assms(1,2) by (auto simp: applyAction_def Let_def)
  have "sameTable (startStage s) s'"
  proof (cases a)
    case DRAW_STOCK
    then show ?thesis using eq applyDrawStock_sameTable [of "startStage s"] by auto
  next
    case DRAW_DISCARD
    then show ?thesis using eq applyDrawDiscard_sameTable [of "startStage s"] by auto
  next
    case (DISCARD c)
    then obtain e where "r = Rejected e" using assms(3) by (cases r) auto
    then show ?thesis using eq DISCARD by (auto intro: applyDiscard_Rejected_sameTable)
  next
    case KNOCK
    then show ?thesis using eq applyKnock_not_playing [OF ph1, of p] by (auto simp: sameTable_refl)
  next
    case OTHER
    then show ?thesis using eq by (auto simp: reject_def sameTable_refl)
  qed
  with t1 show ?thesis by (rule sameTable_trans)
qed

text \<open>
  Seats counted from a seat \<open>k\<close>: offset \<open>j\<close> is seat \<open>(k + j) mod N\<close>.
  \<open>E\<close> lists the eliminated flags; \<open>activeFrom E k off\<close> counts the non-eliminated
  seats at the offsets \<open>off, ..., N - 1\<close>.
\<close>

definition activeFrom :: "bool list \<Rightarrow> nat \<Rightarrow> nat \<Rightarrow> nat" where
  "activeFrom E k off = length (filter (\<lambda>j. \<not> E ! ((k + j) mod length E)) [off..<length E])"

lemma activeFrom_Suc:
  "off < length E \<Longrightarrow>
   activeFrom E k off = (if E ! ((k + off) mod length E) then 0 else 1) + activeFrom E k (Suc off)"
  by (simp add: activeFrom_def upt_conv_Cons)

lemma activeFrom_skip:
  assumes "a \<le> b" and "b \<le> length E"
    and "\<forall>j. a \<le> j \<and> j < b \<longrightarrow> E ! ((k + j) mod length E)"
  shows "activeFrom E k a = activeFrom E k b"
  using assms
proof (induction "b - a" arbitrary: a)
  case 0
  then show ?case by simp
next
  case (Suc n)
  then have ab: "a < b" by simp
  then have al: "a < length E" using Suc.prems(2) by simp
  have ea: "E ! ((k + a) mod length E)" using Suc.prems(3) ab by simp
  have "activeFrom E k (Suc a) = activeFrom E k b"
  proof (rule Suc.hyps(1))
    show "n = b - Suc a" using Suc.hyps(2) by simp
    show "Suc a \<le> b" using ab by simp
    show "b \<le> length E" by (rule Suc.prems(2))
    show "\<forall>j. Suc a \<le> j \<and> j < b \<longrightarrow> E ! ((k + j) mod length E)" using Suc.prems(3) by simp
  qed
  then show ?case using activeFrom_Suc [OF al, of k] ea by simp
qed

lemma activeFrom_pos:
  assumes "1 \<le> activeFrom E k off"
  shows "\<exists>j. off \<le> j \<and> j < length E \<and> \<not> E ! ((k + j) mod length E)"
proof -
  let ?xs = "filter (\<lambda>j. \<not> E ! ((k + j) mod length E)) [off..<length E]"
  have "?xs \<noteq> []" using assms by (auto simp: activeFrom_def)
  then obtain j where "j \<in> set ?xs" by (cases ?xs) auto
  then show ?thesis by auto
qed

lemma first_from:
  assumes "\<exists>j. a \<le> j \<and> j < n \<and> Q j"
  shows "\<exists>s::nat. a \<le> s \<and> s < n \<and> Q s \<and> (\<forall>j. a \<le> j \<and> j < s \<longrightarrow> \<not> Q j)"
proof -
  let ?P = "\<lambda>j. a \<le> j \<and> j < n \<and> Q j"
  let ?s = "LEAST j. ?P j"
  have s: "?P ?s" using assms by (rule LeastI_ex)
  have "\<not> Q j" if "a \<le> j" "j < ?s" for j
  proof
    assume "Q j"
    moreover have "j < n" using that(2) s by simp
    ultimately have "?P j" using that(1) by simp
    then have "?s \<le> j" by (rule Least_le)
    then show False using that(2) by simp
  qed
  then show ?thesis using s by blast
qed

lemma activeFrom_all:
  "activeFrom E k 0 = length (filter (\<lambda>b. \<not> b) E)"
proof -
  have r: "map (\<lambda>j. E ! ((k + j) mod length E)) [0..<length E] = rotate k E"
    by (rule nth_equalityI) (simp_all add: nth_rotate)
  have "activeFrom E k 0
      = length (filter (\<lambda>b. \<not> b) (map (\<lambda>j. E ! ((k + j) mod length E)) [0..<length E]))"
    by (simp add: activeFrom_def filter_map comp_def)
  also have "\<dots> = length (filter (\<lambda>b. \<not> b) (rotate k E))" by (simp only: r)
  also have "\<dots> = length (filter (\<lambda>b. \<not> b) (drop (k mod length E) E))
                   + length (filter (\<lambda>b. \<not> b) (take (k mod length E) E))"
    by (simp add: rotate_drop_take)
  also have "\<dots> = length (filter (\<lambda>b. \<not> b) (take (k mod length E) E @ drop (k mod length E) E))"
    by (simp only: filter_append length_append add.commute)
  also have "\<dots> = length (filter (\<lambda>b. \<not> b) E)" by (simp only: append_take_drop_id)
  finally show ?thesis .
qed

lemma nextActiveLoop_first:
  assumes "1 \<le> step" and "step \<le> s" and "s \<le> length ps"
    and "\<forall>j. step \<le> j \<and> j < s \<longrightarrow> eliminated (ps ! ((f + j) mod length ps))"
    and "\<not> eliminated (ps ! ((f + s) mod length ps))"
  shows "nextActiveLoop ps f step = (f + s) mod length ps"
  using assms
proof (induction "s - step" arbitrary: step)
  case 0
  then have "step = s" by simp
  then show ?case
    using "0.prems"(3,5) by (simp add: nextActiveLoop.simps [of ps f s])
next
  case (Suc n)
  then have lt: "step < s" by simp
  then have e: "eliminated (ps ! ((f + step) mod length ps))" using Suc.prems(4) by simp
  have le: "step \<le> length ps" using lt Suc.prems(3) by simp
  have "nextActiveLoop ps f (step + 1) = (f + s) mod length ps"
  proof (rule Suc.hyps(1))
    show "n = s - (step + 1)" using Suc.hyps(2) by simp
    show "1 \<le> step + 1" by simp
    show "step + 1 \<le> s" using lt by simp
    show "s \<le> length ps" by (rule Suc.prems(3))
    show "\<forall>j. step + 1 \<le> j \<and> j < s \<longrightarrow> eliminated (ps ! ((f + j) mod length ps))"
      using Suc.prems(4) by simp
    show "\<not> eliminated (ps ! ((f + s) mod length ps))" by (rule Suc.prems(5))
  qed
  then show ?case
    using e le by (simp add: nextActiveLoop.simps [of ps f step])
qed

lemma next_offset:
  assumes E: "E = map eliminated ps" and off: "off < length ps"
    and pos: "1 \<le> activeFrom E k (Suc off)"
  shows "\<exists>off'. off < off' \<and> off' < length ps
           \<and> nextActiveLoop ps ((k + off) mod length ps) 1 = (k + off') mod length ps
           \<and> \<not> E ! ((k + off') mod length ps)
           \<and> activeFrom E k off' = activeFrom E k (Suc off)"
proof -
  let ?N = "length ps"
  have N: "length E = ?N" using E by simp
  have "\<exists>j. Suc off \<le> j \<and> j < ?N \<and> \<not> E ! ((k + j) mod ?N)"
    using activeFrom_pos [OF pos] N by simp
  then obtain s where s1: "Suc off \<le> s" and s2: "s < ?N" and s3: "\<not> E ! ((k + s) mod ?N)"
    and s4: "\<forall>j. Suc off \<le> j \<and> j < s \<longrightarrow> \<not> \<not> E ! ((k + j) mod ?N)"
    using first_from [of "Suc off" ?N "\<lambda>j. \<not> E ! ((k + j) mod ?N)"] by blast
  have Npos: "0 < ?N" using off by (cases ps) auto
  have el: "eliminated (ps ! ((k + j) mod ?N)) = E ! ((k + j) mod ?N)" for j
    using E Npos by simp
  have shift: "((k + off) mod ?N + j) mod ?N = (k + (off + j)) mod ?N" for j
    by (simp add: mod_add_left_eq add.assoc)
  have "nextActiveLoop ps ((k + off) mod ?N) 1 = ((k + off) mod ?N + (s - off)) mod ?N"
  proof (rule nextActiveLoop_first)
    show "1 \<le> (1::nat)" by simp
    show "1 \<le> s - off" using s1 by simp
    show "s - off \<le> ?N" using s2 by simp
    show "\<forall>j. 1 \<le> j \<and> j < s - off \<longrightarrow> eliminated (ps ! (((k + off) mod ?N + j) mod ?N))"
    proof (intro allI impI)
      fix j assume j: "1 \<le> j \<and> j < s - off"
      then have "Suc off \<le> off + j \<and> off + j < s" by auto
      then have "E ! ((k + (off + j)) mod ?N)" using s4 by blast
      then show "eliminated (ps ! (((k + off) mod ?N + j) mod ?N))" by (simp only: shift el)
    qed
    show "\<not> eliminated (ps ! (((k + off) mod ?N + (s - off)) mod ?N))"
      using s1 s3 by (simp only: shift el) simp
  qed
  also have "\<dots> = (k + s) mod ?N" using s1 by (simp only: shift) simp
  finally have nx: "nextActiveLoop ps ((k + off) mod ?N) 1 = (k + s) mod ?N" .
  have af: "activeFrom E k (Suc off) = activeFrom E k s"
    using s1 s2 s4 by (intro activeFrom_skip) (simp_all add: N)
  have "off < s \<and> s < length ps
           \<and> nextActiveLoop ps ((k + off) mod length ps) 1 = (k + s) mod length ps
           \<and> \<not> E ! ((k + s) mod length ps)
           \<and> activeFrom E k s = activeFrom E k (Suc off)"
    using s1 s2 s3 nx af by simp
  then show ?thesis by (rule exI [of _ s])
qed

end
